theory Spec2Isabelle
  imports Main "HOL-Library.Sublist"
begin

section \<open>JavaScript strings\<close>

text \<open>
  A JavaScript string is a sequence of UTF-16 code units. The regular expressions of the
  parser carry no \<^verbatim>\<open>u\<close> flag, so they work on code units too. A literal is written
  \<open>js ''...''\<close>.
\<close>

type_synonym jsstring = "nat list"

abbreviation (input) js :: "string \<Rightarrow> jsstring" where
  "js s \<equiv> map of_char s"

text \<open>
  \<^verbatim>\<open>\s\<close> in a regular expression, and the characters \<^verbatim>\<open>trim()\<close> strips
  (WhiteSpace and LineTerminator of ECMAScript): TAB, LF, VT, FF, CR, SP, NBSP, U+1680,
  U+2000 to U+200A, U+2028, U+2029, U+202F, U+205F, U+3000, U+FEFF.
\<close>

definition isSpace :: "nat \<Rightarrow> bool" where
  "isSpace c \<longleftrightarrow>
     c \<in> set [9, 10, 11, 12, 13, 32, 160, 5760, 8232, 8233, 8239, 8287, 12288, 65279]
     \<or> (8192 \<le> c \<and> c \<le> 8202)"

text \<open>\<^verbatim>\<open>\d\<close>: the ASCII digits.\<close>

definition isDigit :: "nat \<Rightarrow> bool" where
  "isDigit c \<longleftrightarrow> 48 \<le> c \<and> c \<le> 57"

text \<open>\<^verbatim>\<open>.\<close> matches every code unit but the line terminators LF, CR, U+2028, U+2029.\<close>

definition isLineTerminator :: "nat \<Rightarrow> bool" where
  "isLineTerminator c \<longleftrightarrow> c \<in> set [10, 13, 8232, 8233]"

definition trim :: "jsstring \<Rightarrow> jsstring" where
  "trim s = rev (dropWhile isSpace (rev (dropWhile isSpace s)))"

text \<open>\<^verbatim>\<open>s.split(d)\<close> for a separator of one code unit; \<^verbatim>\<open>''.split(d)\<close> is \<^verbatim>\<open>['']\<close>.\<close>

fun splitOn :: "nat \<Rightarrow> jsstring \<Rightarrow> jsstring list" where
  "splitOn d [] = [[]]"
| "splitOn d (c # cs) =
     (if c = d then [] # splitOn d cs
      else (case splitOn d cs of [] \<Rightarrow> [[c]] | p # ps \<Rightarrow> (c # p) # ps))"

text \<open>\<^verbatim>\<open>a || b\<close> on strings: the empty string is falsy.\<close>

definition orElse :: "jsstring \<Rightarrow> jsstring \<Rightarrow> jsstring" where
  "orElse a b = (if a \<noteq> [] then a else b)"

section \<open>Tokens of the parser (types/index.ts)\<close>

datatype TokenType =
    Heading | Paragraph | Text | Strong | Em | Code | Codeblock | Blockquote | ListT
  | Listitem | Link | Image | Table | Hr | Br | Del | Task | Incomplete
  | MathInline | MathBlock | Mermaid | Diagram

text \<open>
  \<open>ParsedToken\<close>. An optional field that an object literal does not set is \<open>None\<close>
  (\<^verbatim>\<open>undefined\<close>). The parser never sets \<^verbatim>\<open>style\<close>, which is left out.
\<close>

record ParsedToken =
  ptype :: TokenType
  content :: jsstring
  depth :: "nat option"
  ordered :: "bool option"
  lang :: "jsstring option"
  incomplete :: "bool option"
  raw :: "jsstring option"

definition token :: "TokenType \<Rightarrow> jsstring \<Rightarrow> ParsedToken" where
  "token ty c = \<lparr>ptype = ty, content = c, depth = None, ordered = None, lang = None,
     incomplete = None, raw = None\<rparr>"

text \<open>The provisional flag of the specification: \<^verbatim>\<open>incomplete\<close> is set and true.\<close>

definition provisional :: "ParsedToken \<Rightarrow> bool" where
  "provisional t \<longleftrightarrow> incomplete t = Some True"

section \<open>Still-open signatures at the end of a string\<close>

text \<open>
  A regular expression \<^verbatim>\<open>D[^...]{1,n}$\<close> (no \<^verbatim>\<open>m\<close> flag, so \<^verbatim>\<open>$\<close> is the end of
  the string) matches when some suffix of the string is the delimiter \<open>d\<close> followed by
  between one and \<open>n\<close> code units of the class \<open>cls\<close>.
\<close>

definition openTail :: "jsstring \<Rightarrow> (nat \<Rightarrow> bool) \<Rightarrow> nat \<Rightarrow> jsstring \<Rightarrow> bool" where
  "openTail d cls n s =
     list_ex (\<lambda>suf. prefix d suf \<and>
                (let r = drop (length d) suf
                 in 1 \<le> length r \<and> length r \<le> n \<and> list_all cls r))
             (suffixes s)"

text \<open>\<^verbatim>\<open>/\*\*[^*\n]{1,100}$/\<close>\<close>

definition openStrong :: "jsstring \<Rightarrow> bool" where
  "openStrong s = openTail (js ''**'') (\<lambda>c. c \<noteq> 42 \<and> c \<noteq> 10) 100 s"

text \<open>\<^verbatim>\<open>/\*[^*\n]{1,100}$/\<close>\<close>

definition openEm :: "jsstring \<Rightarrow> bool" where
  "openEm s = openTail (js ''*'') (\<lambda>c. c \<noteq> 42 \<and> c \<noteq> 10) 100 s"

text \<open>\<^verbatim>\<open>/`[^`\n]{1,500}$/\<close>\<close>

definition openCode :: "jsstring \<Rightarrow> bool" where
  "openCode s = openTail (js ''`'') (\<lambda>c. c \<noteq> 96 \<and> c \<noteq> 10) 500 s"

text \<open>\<^verbatim>\<open>/\[[^\]\n]{1,200}$/\<close>\<close>

definition openLink :: "jsstring \<Rightarrow> bool" where
  "openLink s = openTail (js ''['') (\<lambda>c. c \<noteq> 93 \<and> c \<noteq> 10) 200 s"

text \<open>The number of \<^verbatim>\<open>#\<close> at the start of a string.\<close>

definition hashes :: "jsstring \<Rightarrow> nat" where
  "hashes s = length (takeWhile (\<lambda>c. c = 35) s)"

text \<open>
  \<^verbatim>\<open>/^#{1,6}\s/\<close>: the length of the match, if any. The greedy quantifier tries six
  hashes first, then fewer.
\<close>

definition headingPrefix :: "jsstring \<Rightarrow> nat option" where
  "headingPrefix s =
     (case filter (\<lambda>n. n \<le> hashes s \<and> n < length s \<and> isSpace (s ! n)) [6, 5, 4, 3, 2, 1] of
        [] \<Rightarrow> None
      | n # _ \<Rightarrow> Some (Suc n))"

text \<open>\<^verbatim>\<open>/^#{1,6}\s[^\n]{1,200}$/\<close> on the whole string.\<close>

definition openHeading :: "jsstring \<Rightarrow> bool" where
  "openHeading s =
     list_ex (\<lambda>n. n \<le> hashes s \<and> n < length s \<and> isSpace (s ! n) \<and>
                (let r = drop (Suc n) s
                 in 1 \<le> length r \<and> length r \<le> 200 \<and> list_all (\<lambda>c. c \<noteq> 10) r))
             [1, 2, 3, 4, 5, 6]"

section \<open>The fallback line parser (parsePartial)\<close>

text \<open>parseInlineFormatting: a text token, flagged when the line ends inside a mark.\<close>

definition parseInlineFormatting :: "jsstring \<Rightarrow> ParsedToken" where
  "parseInlineFormatting text =
     (token Text text)\<lparr>incomplete := Some (openStrong text \<or> openEm text \<or> openCode text)\<rparr>"

text \<open>\<^verbatim>\<open>/^[-*+]\s/\<close>\<close>

definition bulletPrefix :: "jsstring \<Rightarrow> bool" where
  "bulletPrefix s \<longleftrightarrow> 2 \<le> length s \<and> s ! 0 \<in> set [45, 42, 43] \<and> isSpace (s ! 1)"

text \<open>\<^verbatim>\<open>/^\d+\./\<close> and \<^verbatim>\<open>/^\d+\.\s/\<close>: after the longest run of digits (a shorter run is
  followed by a digit, never by the dot).\<close>

definition numberDot :: "jsstring \<Rightarrow> bool" where
  "numberDot s \<longleftrightarrow>
     (let d = length (takeWhile isDigit s) in 1 \<le> d \<and> d < length s \<and> s ! d = 46)"

definition numberPrefix :: "jsstring \<Rightarrow> bool" where
  "numberPrefix s \<longleftrightarrow>
     (let d = length (takeWhile isDigit s)
      in 1 \<le> d \<and> Suc d < length s \<and> s ! d = 46 \<and> isSpace (s ! Suc d))"

text \<open>\<^verbatim>\<open>line.replace(/^[-*+\d.]\s*/, '')\<close>: one code unit of the class, then the white space.\<close>

definition stripMarker :: "jsstring \<Rightarrow> jsstring" where
  "stripMarker s =
     (case s of
        [] \<Rightarrow> []
      | c # cs \<Rightarrow> if c \<in> set [45, 42, 43, 46] \<or> isDigit c then dropWhile isSpace cs else s)"

text \<open>\<^verbatim>\<open>line.replace(/^>\s*/, '')\<close>\<close>

definition stripQuote :: "jsstring \<Rightarrow> jsstring" where
  "stripQuote s = (case s of [] \<Rightarrow> [] | c # cs \<Rightarrow> if c = 62 then dropWhile isSpace cs else s)"

text \<open>
  parseIncompleteLine. \<^verbatim>\<open>line.match(/^(#{1,6})/)?.[1].length || 1\<close> is the number of
  leading hashes, at most six, and 1 when there is none.
\<close>

definition parseIncompleteLine :: "jsstring \<Rightarrow> ParsedToken" where
  "parseIncompleteLine line =
     (case headingPrefix line of
        Some k \<Rightarrow>
          (token Heading (drop k line))
            \<lparr>depth := Some (let n = min 6 (hashes line) in if n = 0 then 1 else n),
             incomplete := Some (10 \<notin> set line)\<rparr>
      | None \<Rightarrow>
          if prefix (js ''```'') line then
            (token Codeblock [])
              \<lparr>lang := Some (orElse (trim (drop 3 line)) (js ''text'')),
               incomplete := Some True\<rparr>
          else if prefix (js ''>'') line then
            (token Blockquote (stripQuote line))\<lparr>incomplete := Some (10 \<notin> set line)\<rparr>
          else if bulletPrefix line \<or> numberPrefix line then
            (token Listitem (stripMarker line))
              \<lparr>ordered := Some (numberDot line), incomplete := Some (10 \<notin> set line)\<rparr>
          else parseInlineFormatting line)"

text \<open>The loop of parsePartial over the lines: a blank line is skipped.\<close>

fun parseLines :: "jsstring list \<Rightarrow> ParsedToken list" where
  "parseLines [] = []"
| "parseLines (line # lines) =
     (if trim line = [] then parseLines lines
      else parseIncompleteLine line # parseLines lines)"

definition parsePartial :: "jsstring \<Rightarrow> ParsedToken list" where
  "parsePartial buffer = parseLines (splitOn 10 buffer)"

section \<open>Tokens of the lexer\<close>

text \<open>
  The parser calls \<^verbatim>\<open>marked.lexer\<close>, of the library marked, and reads these fields of
  its tokens. \<open>M_mermaid\<close> is the type the parser itself writes; \<open>M_other\<close> stands for
  every type string that the parser's \<^verbatim>\<open>switch\<close> does not name (html, br, escape, image, ...).
  A string field that a token does not carry is the empty string: the parser reads
  \<^verbatim>\<open>text\<close>, \<^verbatim>\<open>lang\<close> and \<^verbatim>\<open>raw\<close> only under \<^verbatim>\<open>||\<close>, in a truth test or to copy them,
  where \<^verbatim>\<open>undefined\<close> and \<^verbatim>\<open>''\<close> behave alike. An array field that is missing is \<open>None\<close>.
\<close>

datatype mtype =
    M_space | M_code | M_heading | M_table | M_hr | M_blockquote | M_list | M_paragraph
  | M_text | M_link | M_strong | M_em | M_codespan | M_del | M_mermaid | M_other

text \<open>A table cell is an object; \<^verbatim>\<open>String(cell)\<close> is \<^verbatim>\<open>[object Object]\<close>.\<close>

record cell =
  c_text :: jsstring
  c_content :: jsstring

record item =
  i_text :: jsstring
  i_raw :: jsstring

datatype mtoken = MToken
  (m_type: mtype) (m_raw: jsstring) (m_text: jsstring) (m_lang: jsstring)
  (m_depth: nat) (m_ordered: bool)
  (m_tokens: "mtoken list option") (m_items: "item list option")
  (m_header: "cell list option") (m_rows: "cell list list option")

text \<open>An object literal \<^verbatim>\<open>{ type, raw, text }\<close>.\<close>

definition inlineToken :: "mtype \<Rightarrow> jsstring \<Rightarrow> jsstring \<Rightarrow> mtoken" where
  "inlineToken ty r t = MToken ty r t [] 0 False None None None None"

datatype exn = TypeError | LexerError

text \<open>The lexer is outside the repository: it is a parameter, and it may throw.\<close>

type_synonym lexer = "jsstring \<Rightarrow> exn + mtoken list"

section \<open>Diagram detection\<close>

text \<open>
  \<^verbatim>\<open>toLowerCase()\<close>, one code unit at a time. The Unicode case tables above U+00FF are not
  embedded: apart from U+0130 (i followed by U+0307), U+212A (k) and U+212B (U+00E5), a
  code unit above U+00FF is left as it is. The tables map such a code unit to code units
  above U+007F, so a comparison with an ASCII keyword comes out as in JavaScript.
\<close>

definition lowerUnit :: "nat \<Rightarrow> jsstring" where
  "lowerUnit c =
     (if (65 \<le> c \<and> c \<le> 90) \<or> (192 \<le> c \<and> c \<le> 222 \<and> c \<noteq> 215) then [c + 32]
      else if c = 304 then [105, 775]
      else if c = 8490 then [107]
      else if c = 8491 then [229]
      else [c])"

definition toLowerCase :: "jsstring \<Rightarrow> jsstring" where
  "toLowerCase s = concat (map lowerUnit s)"

definition mermaidKeywords :: "jsstring list" where
  "mermaidKeywords =
     [js ''graph'', js ''flowchart'', js ''sequenceDiagram'', js ''classDiagram'',
      js ''stateDiagram'', js ''journey'', js ''gantt'', js ''pie'', js ''gitgraph'']"

definition looksLikeMermaidCode :: "jsstring \<Rightarrow> bool" where
  "looksLikeMermaidCode code =
     (if code = [] then False
      else (let trimmed = toLowerCase (trim code)
            in list_ex (\<lambda>keyword. prefix (toLowerCase keyword) trimmed) mermaidKeywords))"

text \<open>\<^verbatim>\<open>{ ...token, type: 'mermaid', text: token.text || token.raw }\<close>\<close>

definition asMermaid :: "mtoken \<Rightarrow> mtoken" where
  "asMermaid t =
     MToken M_mermaid (m_raw t) (orElse (m_text t) (m_raw t)) (m_lang t) (m_depth t)
       (m_ordered t) (m_tokens t) (m_items t) (m_header t) (m_rows t)"

text \<open>One turn of the loop of processTokensWithDiagramDetection.\<close>

definition detectDiagram :: "mtoken \<Rightarrow> mtoken" where
  "detectDiagram t =
     (if m_type t = M_code \<and> m_lang t = js ''mermaid'' then asMermaid t
      else if m_type t = M_code \<and> looksLikeMermaidCode (orElse (m_text t) (m_raw t))
           then asMermaid t
      else t)"

section \<open>Inline marks read from raw text (parseInlineFromText)\<close>

record imatch =
  i_type :: mtype
  i_content :: jsstring
  i_start :: nat
  i_end :: nat

text \<open>
  A pattern \<^verbatim>\<open>D([^c]+)D\<close> at the start of a string, where \<open>c\<close> is the first code unit of
  the delimiter \<open>d\<close>: the greedy class takes the longest run without \<open>c\<close> (after a shorter one
  the next code unit is not \<open>c\<close>, so the closing delimiter cannot follow). The result is the
  first group and the length of the match.
\<close>

definition delimited :: "jsstring \<Rightarrow> nat \<Rightarrow> jsstring \<Rightarrow> (jsstring \<times> nat) option" where
  "delimited d c s =
     (if prefix d s then
        (let body = takeWhile (\<lambda>x. x \<noteq> c) (drop (length d) s)
         in if body \<noteq> [] \<and> prefix d (drop (length d + length body) s)
            then Some (body, length d + length body + length d) else None)
      else None)"

text \<open>\<^verbatim>\<open>/\[([^\]]+)\]\(([^)]+)\)/\<close>\<close>

definition linkAt :: "jsstring \<Rightarrow> (jsstring \<times> nat) option" where
  "linkAt s =
     (if prefix (js ''['') s then
        (let label = takeWhile (\<lambda>x. x \<noteq> 93) (drop 1 s);
             rest = drop (1 + length label) s
         in if label \<noteq> [] \<and> prefix (js '']('') rest then
              (let url = takeWhile (\<lambda>x. x \<noteq> 41) (drop 2 rest)
               in if url \<noteq> [] \<and> prefix (js '')'') (drop (2 + length url) rest)
                  then Some (label, 1 + length label + 2 + length url + 1) else None)
            else None)
      else None)"

text \<open>
  The \<^verbatim>\<open>while ((match = regex.exec(text)) !== null)\<close> loop of a global regular expression:
  the leftmost match at or after \<^verbatim>\<open>lastIndex\<close>, then on from the end of that match. \<open>k\<close>
  counts the code units of the last match still to be passed, \<open>i\<close> is the index in the text.
  Every match here is at least three code units long.
\<close>

fun execAll :: "mtype \<Rightarrow> (jsstring \<Rightarrow> (jsstring \<times> nat) option) \<Rightarrow> nat \<Rightarrow> nat \<Rightarrow> jsstring
    \<Rightarrow> imatch list" where
  "execAll ty m k i [] = []"
| "execAll ty m k i (c # cs) =
     (if 0 < k then execAll ty m (k - 1) (Suc i) cs
      else (case m (c # cs) of
              None \<Rightarrow> execAll ty m 0 (Suc i) cs
            | Some (g, n) \<Rightarrow>
                \<lparr>i_type = ty, i_content = g, i_start = i, i_end = i + n\<rparr>
                  # execAll ty m (n - 1) (Suc i) cs))"

definition inlineMatches :: "jsstring \<Rightarrow> imatch list" where
  "inlineMatches text =
     execAll M_strong (delimited (js ''**'') 42) 0 0 text
     @ execAll M_strong (delimited (js ''__'') 95) 0 0 text
     @ execAll M_em (delimited (js ''*'') 42) 0 0 text
     @ execAll M_em (delimited (js ''_'') 95) 0 0 text
     @ execAll M_codespan (delimited (js ''`'') 96) 0 0 text
     @ execAll M_link linkAt 0 0 text
     @ execAll M_del (delimited (js ''~~'') 126) 0 0 text"

text \<open>\<^verbatim>\<open>text.slice(a, b)\<close> for \<open>0 \<le> a\<close> and \<open>0 \<le> b\<close>.\<close>

definition slice :: "jsstring \<Rightarrow> nat \<Rightarrow> nat \<Rightarrow> jsstring" where
  "slice s a b = take (b - a) (drop a s)"

text \<open>The loop that builds the tokens; \<open>lastEnd\<close> is the loop's variable.\<close>

fun buildInline :: "jsstring \<Rightarrow> nat \<Rightarrow> imatch list \<Rightarrow> mtoken list" where
  "buildInline text lastEnd [] =
     (if lastEnd < length text \<and> trim (drop lastEnd text) \<noteq> []
      then [inlineToken M_text (drop lastEnd text) (drop lastEnd text)] else [])"
| "buildInline text lastEnd (m # ms) =
     (if i_start m > lastEnd \<and> trim (slice text lastEnd (i_start m)) \<noteq> []
      then [inlineToken M_text (slice text lastEnd (i_start m)) (slice text lastEnd (i_start m))]
      else [])
     @ inlineToken (i_type m) (slice text (i_start m) (i_end m)) (i_content m)
     # buildInline text (i_end m) ms"

text \<open>\<^verbatim>\<open>Array.prototype.sort\<close> is stable, as is \<open>sort_key\<close>.\<close>

definition parseInlineFromText :: "jsstring \<Rightarrow> mtoken list" where
  "parseInlineFromText text = buildInline text 0 (sort_key i_start (inlineMatches text))"

section \<open>Flattening (flattenInlineTokens, processInlineTokens)\<close>

fun flattenInlineTokens :: "mtoken list \<Rightarrow> mtoken list" where
  "flattenInlineTokens [] = []"
| "flattenInlineTokens (MToken ty r tx l d ord toks its h rws # rest) =
     (if ty \<in> set [M_em, M_strong, M_codespan, M_link, M_del, M_text]
      then [MToken ty r tx l d ord toks its h rws]
      else (case toks of
              Some ts \<Rightarrow>
                if ts \<noteq> [] then flattenInlineTokens ts
                else [MToken ty r tx l d ord toks its h rws]
            | None \<Rightarrow> [MToken ty r tx l d ord toks its h rws]))
     @ flattenInlineTokens rest"

fun processInlineTokens :: "mtoken list \<Rightarrow> mtoken list" where
  "processInlineTokens [] = []"
| "processInlineTokens (MToken ty r tx l d ord toks its h rws # rest) =
     (if ty = M_paragraph then
        (case toks of
           Some ts \<Rightarrow>
             if ts \<noteq> [] then flattenInlineTokens ts
             else (let inlineTokens = parseInlineFromText (orElse tx (orElse r []))
                   in if inlineTokens \<noteq> [] then inlineTokens
                      else [MToken ty r tx l d ord toks its h rws])
         | None \<Rightarrow>
             (let inlineTokens = parseInlineFromText (orElse tx (orElse r []))
              in if inlineTokens \<noteq> [] then inlineTokens
                 else [MToken ty r tx l d ord toks its h rws]))
      else if ty = M_blockquote then
        (case toks of
           Some ts \<Rightarrow>
             if ts \<noteq> [] then processInlineTokens ts
             else [MToken ty r tx l d ord toks its h rws]
         | None \<Rightarrow> [MToken ty r tx l d ord toks its h rws])
      else [MToken ty r tx l d ord toks its h rws])
     @ processInlineTokens rest"

definition processTokensWithDiagramDetection :: "mtoken list \<Rightarrow> mtoken list" where
  "processTokensWithDiagramDetection tokens = processInlineTokens (map detectDiagram tokens)"

section \<open>Tables (convertTableTokenToMarkdown)\<close>

text \<open>\<^verbatim>\<open>cell.text || cell.content || String(cell)\<close>\<close>

definition cellString :: "cell \<Rightarrow> jsstring" where
  "cellString c = orElse (c_text c) (orElse (c_content c) (js ''[object Object]''))"

text \<open>\<^verbatim>\<open>xs.join(sep)\<close>\<close>

fun join :: "jsstring \<Rightarrow> jsstring list \<Rightarrow> jsstring" where
  "join sep [] = []"
| "join sep [x] = x"
| "join sep (x # y # ys) = x @ sep @ join sep (y # ys)"

text \<open>\<^verbatim>\<open>'| ' + cells.join(' | ') + ' |'\<close>\<close>

definition pipeLine :: "jsstring list \<Rightarrow> jsstring" where
  "pipeLine cells = js ''| '' @ join (js '' | '') cells @ js '' |''"

text \<open>
  The cells of the lexer's tokens are objects and the rows are arrays, so nothing in the
  \<^verbatim>\<open>try\<close> block throws and \<^verbatim>\<open>Array.isArray(row)\<close> holds for every row.
\<close>

definition convertTableTokenToMarkdown :: "mtoken \<Rightarrow> jsstring" where
  "convertTableTokenToMarkdown t =
     (case (m_header t, m_rows t) of
        (Some header, Some rows) \<Rightarrow>
          (let headerCells = map cellString header;
               separatorCells = map (\<lambda>_. js ''---'') headerCells
           in join [10]
                ([pipeLine headerCells, pipeLine separatorCells]
                 @ map (\<lambda>row. pipeLine (map cellString row)) rows))
      | _ \<Rightarrow> orElse (m_raw t) (js ''[Invalid Table]''))"

text \<open>
  The canonical pipe table of the specification: a header line, a separator line with one
  \<^verbatim>\<open>---\<close> for each header, then a line for each data row, joined by newlines.
\<close>

definition canonicalTable :: "jsstring list \<Rightarrow> jsstring list list \<Rightarrow> jsstring" where
  "canonicalTable hs rs =
     join [10] (pipeLine hs # pipeLine (replicate (length hs) (js ''---'')) # map pipeLine rs)"

text \<open>A cell between its two spaces, as it stands in a line of the table.\<close>

definition padded :: "jsstring \<Rightarrow> jsstring" where
  "padded c = 32 # c @ [32]"

section \<open>Conversion to the parser's tokens (convertToken, convertTokens)\<close>

text \<open>
  A result of convertToken is a token, an array of tokens or \<^verbatim>\<open>null\<close>; convertTokens
  and the blockquote case splice all three into one array, so the model returns the list.
  \<^verbatim>\<open>blockquote.tokens.map\<close> and \<^verbatim>\<open>list.items.map\<close> throw a TypeError on a missing array.
\<close>

fun concatE :: "(exn + 'a list) list \<Rightarrow> exn + 'a list" where
  "concatE [] = Inr []"
| "concatE (r # rs) =
     (case r of
        Inl e \<Rightarrow> Inl e
      | Inr xs \<Rightarrow> (case concatE rs of Inl e \<Rightarrow> Inl e | Inr ys \<Rightarrow> Inr (xs @ ys)))"

definition withRaw :: "TokenType \<Rightarrow> jsstring \<Rightarrow> jsstring \<Rightarrow> ParsedToken" where
  "withRaw ty c r = (token ty c)\<lparr>raw := Some r\<rparr>"

fun convertToken :: "mtoken \<Rightarrow> exn + ParsedToken list" where
  "convertToken (MToken ty r tx l d ord toks its h rws) =
     (case ty of
        M_heading \<Rightarrow> Inr [(withRaw Heading tx r)\<lparr>depth := Some d\<rparr>]
      | M_paragraph \<Rightarrow> Inr [withRaw Paragraph tx r]
      | M_strong \<Rightarrow> Inr [withRaw Strong tx r]
      | M_em \<Rightarrow> Inr [withRaw Em tx r]
      | M_codespan \<Rightarrow> Inr [withRaw Code tx r]
      | M_link \<Rightarrow> Inr [withRaw Link tx r]
      | M_del \<Rightarrow> Inr [withRaw Del tx r]
      | M_text \<Rightarrow> Inr [withRaw Text tx r]
      | M_code \<Rightarrow> Inr [(withRaw Codeblock tx r)\<lparr>lang := Some (orElse l (js ''text''))\<rparr>]
      | M_mermaid \<Rightarrow> Inr [withRaw Mermaid (orElse tx r) r]
      | M_blockquote \<Rightarrow>
          (case toks of
             None \<Rightarrow> Inl TypeError
           | Some ts \<Rightarrow> concatE (map convertToken ts))
      | M_list \<Rightarrow>
          (case its of
             None \<Rightarrow> Inl TypeError
           | Some items \<Rightarrow>
               Inr (map (\<lambda>item. (withRaw Listitem (i_text item) (i_raw item))
                                  \<lparr>ordered := Some ord, depth := Some 0\<rparr>) items))
      | M_hr \<Rightarrow> Inr [withRaw Hr [] r]
      | M_table \<Rightarrow>
          Inr [withRaw Table
                 (convertTableTokenToMarkdown (MToken ty r tx l d ord toks its h rws)) r]
      | M_space \<Rightarrow> Inr []
      | M_other \<Rightarrow> Inr [withRaw Text (orElse tx (orElse r [])) r])"

definition convertTokens :: "mtoken list \<Rightarrow> exn + ParsedToken list" where
  "convertTokens markedTokens = concatE (map convertToken markedTokens)"

section \<open>The incompleteness detector (handleIncompleteMarkdown)\<close>

text \<open>\<^verbatim>\<open>if (lastToken.content) lastToken.incomplete = true\<close>, on the last token of the array.\<close>

definition markLast :: "ParsedToken list \<Rightarrow> ParsedToken list" where
  "markLast ts =
     (if content (last ts) \<noteq> [] then butlast ts @ [(last ts)\<lparr>incomplete := Some True\<rparr>]
      else ts)"

text \<open>The five regular expressions of the loop, each tested on the buffer.\<close>

definition tailPatterns :: "jsstring \<Rightarrow> bool list" where
  "tailPatterns buffer =
     [openStrong buffer, openEm buffer, openCode buffer, openLink buffer, openHeading buffer]"

definition handleIncompleteMarkdown :: "jsstring \<Rightarrow> ParsedToken list \<Rightarrow> ParsedToken list" where
  "handleIncompleteMarkdown buffer ts =
     (if ts = [] then ts
      else foldl (\<lambda>acc matches. if matches then markLast acc else acc) ts (tailPatterns buffer))"

text \<open>Some still-open signature matches the end of the buffer.\<close>

definition stillOpen :: "jsstring \<Rightarrow> bool" where
  "stillOpen buffer = list_ex (\<lambda>matches. matches) (tailPatterns buffer)"

section \<open>The chunk preprocessor (preprocessText)\<close>

text \<open>
  \<^verbatim>\<open>text.replace(regex, ...)\<close> with a global regular expression: at each index, left to
  right, the match that starts there (if any) is replaced, and the scan goes on after it.
  The matcher gives the replacement and the length of the match, which is never zero here;
  \<open>k\<close> counts the code units of the last match still to be passed.
\<close>

fun replaceAll :: "(jsstring \<Rightarrow> (jsstring \<times> nat) option) \<Rightarrow> nat \<Rightarrow> jsstring \<Rightarrow> jsstring" where
  "replaceAll m k [] = []"
| "replaceAll m k (c # cs) =
     (if 0 < k then replaceAll m (k - 1) cs
      else (case m (c # cs) of
              None \<Rightarrow> c # replaceAll m 0 cs
            | Some (r, n) \<Rightarrow> r @ replaceAll m (n - 1) cs))"

text \<open>A regular expression that is one literal string.\<close>

definition literal :: "jsstring \<Rightarrow> jsstring \<Rightarrow> jsstring \<Rightarrow> (jsstring \<times> nat) option" where
  "literal p r s = (if prefix p s then Some (r, length p) else None)"

definition isHexDigit :: "nat \<Rightarrow> bool" where
  "isHexDigit c \<longleftrightarrow> isDigit c \<or> (65 \<le> c \<and> c \<le> 70) \<or> (97 \<le> c \<and> c \<le> 102)"

definition digitValue :: "nat \<Rightarrow> nat" where
  "digitValue c = (if isDigit c then c - 48 else if c \<le> 70 then c - 55 else c - 87)"

text \<open>
  \<^verbatim>\<open>parseInt(digits, radix)\<close> on a string of digits of that radix, and
  \<^verbatim>\<open>String.fromCharCode(n)\<close>, which keeps the low 16 bits. A JavaScript number holds an
  integer below \<open>2^53\<close> exactly; the rounding of a longer digit string to a double is not
  embedded, so the model is that of the code for values below \<open>2^53\<close>.
\<close>

definition parseInt :: "nat \<Rightarrow> jsstring \<Rightarrow> nat" where
  "parseInt radix ds = foldl (\<lambda>a c. a * radix + digitValue c) 0 ds"

definition fromCharCode :: "nat \<Rightarrow> jsstring" where
  "fromCharCode n = [n mod 65536]"

text \<open>\<^verbatim>\<open>/&#(\d+);/\<close>: the longest run of digits (a shorter one is followed by a digit).\<close>

definition numericRef :: "jsstring \<Rightarrow> (jsstring \<times> nat) option" where
  "numericRef s =
     (if prefix (js ''&#'') s then
        (let num = takeWhile isDigit (drop 2 s)
         in if num \<noteq> [] \<and> prefix (js '';'') (drop (2 + length num) s)
            then Some (fromCharCode (parseInt 10 num), 2 + length num + 1) else None)
      else None)"

text \<open>\<^verbatim>\<open>/&#x([a-fA-F0-9]+);/\<close>\<close>

definition hexRef :: "jsstring \<Rightarrow> (jsstring \<times> nat) option" where
  "hexRef s =
     (if prefix (js ''&#x'') s then
        (let hex = takeWhile isHexDigit (drop 3 s)
         in if hex \<noteq> [] \<and> prefix (js '';'') (drop (3 + length hex) s)
            then Some (fromCharCode (parseInt 16 hex), 3 + length hex + 1) else None)
      else None)"

text \<open>
  The lazy group \<^verbatim>\<open>(.*?)\<close> before a closing string: the shortest run of code units that
  are no line terminators and after which the closing string stands.
\<close>

fun lazyUntil :: "jsstring \<Rightarrow> jsstring \<Rightarrow> jsstring option" where
  "lazyUntil close [] = (if close = [] then Some [] else None)"
| "lazyUntil close (c # cs) =
     (if prefix close (c # cs) then Some []
      else if isLineTerminator c then None
      else map_option ((#) c) (lazyUntil close cs))"

text \<open>\<^verbatim>\<open>/\{italic\}(.*?)\{\/italic\}/\<close>, replaced by \<^verbatim>\<open>_$1_\<close>\<close>

definition italicTag :: "jsstring \<Rightarrow> (jsstring \<times> nat) option" where
  "italicTag s =
     (if prefix (js ''{italic}'') s then
        (case lazyUntil (js ''{/italic}'') (drop 8 s) of
           None \<Rightarrow> None
         | Some g \<Rightarrow> Some (js ''_'' @ g @ js ''_'', 8 + length g + 9))
      else None)"

definition preprocessText :: "jsstring \<Rightarrow> jsstring" where
  "preprocessText text =
     (let processed = text;
          processed = replaceAll (literal (js ''&#39;'') [39]) 0 processed;
          processed = replaceAll (literal (js ''&quot;'') [34]) 0 processed;
          processed = replaceAll (literal (js ''&amp;'') (js ''&'')) 0 processed;
          processed = replaceAll (literal (js ''&lt;'') (js ''<'')) 0 processed;
          processed = replaceAll (literal (js ''&gt;'') (js ''>'')) 0 processed;
          processed = replaceAll (literal (js ''&nbsp;'') (js '' '')) 0 processed;
          processed = replaceAll (literal (js ''&#x27;'') [39]) 0 processed;
          processed = replaceAll (literal (js ''&#x2F;'') (js ''/'')) 0 processed;
          processed = replaceAll (literal (js ''&#x60;'') [96]) 0 processed;
          processed = replaceAll numericRef 0 processed;
          processed = replaceAll hexRef 0 processed;
          processed = replaceAll italicTag 0 processed
      in processed)"







section \<open>The parser session (parse, addChunk, getTokens)\<close>

record session =
  buffer :: jsstring
  tokens :: "ParsedToken list"
  parseIncomplete :: bool

text \<open>
  The body of the \<^verbatim>\<open>try\<close> block of parse. The lexer and the conversions write nothing to
  the session, so when one of them throws the session is as it was at the call.
\<close>

definition tryParse :: "lexer \<Rightarrow> session \<Rightarrow> exn + (ParsedToken list \<times> session)" where
  "tryParse lx st =
     (case lx (buffer st) of
        Inl e \<Rightarrow> Inl e
      | Inr markedTokens \<Rightarrow>
          (case convertTokens (processTokensWithDiagramDetection markedTokens) of
             Inl e \<Rightarrow> Inl e
           | Inr converted \<Rightarrow>
               (let st1 = st\<lparr>tokens := converted\<rparr>;
                    st2 = (if parseIncomplete st1
                           then st1\<lparr>tokens := handleIncompleteMarkdown (buffer st1) (tokens st1)\<rparr>
                           else st1)
                in Inr (tokens st2, st2))))"

text \<open>parse: \<^verbatim>\<open>catch (error) { return this.parsePartial(); }\<close>\<close>

definition parse :: "lexer \<Rightarrow> session \<Rightarrow> exn + (ParsedToken list \<times> session)" where
  "parse lx st =
     (case tryParse lx st of
        Inr r \<Rightarrow> Inr r
      | Inl e \<Rightarrow> Inr (parsePartial (buffer st), st))"

definition getTokens :: "session \<Rightarrow> ParsedToken list" where
  "getTokens st = tokens st"

text \<open>\<^verbatim>\<open>this.buffer += processedChunk\<close>\<close>

definition afterAppend :: "session \<Rightarrow> jsstring \<Rightarrow> session" where
  "afterAppend st chunk = st\<lparr>buffer := buffer st @ preprocessText chunk\<rparr>"

definition addChunk :: "lexer \<Rightarrow> session \<Rightarrow> jsstring \<Rightarrow> exn + (ParsedToken list \<times> session)" where
  "addChunk lx st chunk = parse lx (afterAppend st chunk)"

text \<open>Whether the \<^verbatim>\<open>try\<close> block of parse runs to its \<^verbatim>\<open>return\<close> on a session.\<close>

definition primaryOk :: "lexer \<Rightarrow> session \<Rightarrow> bool" where
  "primaryOk lx st = (case tryParse lx st of Inl _ \<Rightarrow> False | Inr _ \<Rightarrow> True)"

text \<open>The constructor, and a run of addChunk calls on one session: the array each call returns.\<close>

definition newParser :: "bool \<Rightarrow> session" where
  "newParser flag = \<lparr>buffer = [], tokens = [], parseIncomplete = flag\<rparr>"

fun addChunks :: "lexer \<Rightarrow> session \<Rightarrow> jsstring list
    \<Rightarrow> exn + (ParsedToken list list \<times> session)" where
  "addChunks lx st [] = Inr ([], st)"
| "addChunks lx st (chunk # chunks) =
     (case addChunk lx st chunk of
        Inl e \<Rightarrow> Inl e
      | Inr (result, st') \<Rightarrow>
          (case addChunks lx st' chunks of
             Inl e \<Rightarrow> Inl e
           | Inr (results, st'') \<Rightarrow> Inr (result # results, st'')))"

section \<open>Reading a pipe table back (EnhancedTableRenderer.parseMarkdownTable)\<close>

record TableData =
  headers :: "jsstring list"
  rows :: "jsstring list list"

text \<open>
  \<^verbatim>\<open>line.split('|').map(cell => cell.trim())\<close>, then the empty first cell and the empty
  last cell are removed when there.
\<close>

definition dropEmptyFirst :: "jsstring list \<Rightarrow> jsstring list" where
  "dropEmptyFirst cells = (if cells \<noteq> [] \<and> hd cells = [] then tl cells else cells)"

definition dropEmptyLast :: "jsstring list \<Rightarrow> jsstring list" where
  "dropEmptyLast cells = (if cells \<noteq> [] \<and> last cells = [] then butlast cells else cells)"

definition splitCells :: "jsstring \<Rightarrow> jsstring list" where
  "splitCells line = dropEmptyLast (dropEmptyFirst (map trim (splitOn 124 line)))"

text \<open>\<^verbatim>\<open>/D(.*?)D/\<close>, replaced by \<^verbatim>\<open>$1\<close>\<close>

definition unwrap :: "jsstring \<Rightarrow> jsstring \<Rightarrow> (jsstring \<times> nat) option" where
  "unwrap d s =
     (if prefix d s then
        (case lazyUntil d (drop (length d) s) of
           None \<Rightarrow> None
         | Some g \<Rightarrow> Some (g, length d + length g + length d))
      else None)"

definition cleanHeader :: "jsstring \<Rightarrow> jsstring" where
  "cleanHeader header =
     trim (replaceAll (unwrap (js ''`'')) 0
            (replaceAll (unwrap (js ''*'')) 0
              (replaceAll (unwrap (js ''**'')) 0 header)))"

definition cleanCell :: "jsstring \<Rightarrow> jsstring" where
  "cleanCell cell =
     trim (replaceAll (unwrap (js ''~~'')) 0
            (replaceAll (unwrap (js ''`'')) 0
              (replaceAll (unwrap (js ''*'')) 0
                (replaceAll (unwrap (js ''**'')) 0 cell))))"

text \<open>The loop over the data lines; \<open>n\<close> is \<^verbatim>\<open>headers.length\<close>.\<close>

fun dataRows :: "nat \<Rightarrow> jsstring list \<Rightarrow> jsstring list list" where
  "dataRows n [] = []"
| "dataRows n (line # lines) =
     (let cells = map cleanCell (splitCells line)
      in if length cells = n then cells # dataRows n lines else dataRows n lines)"

text \<open>\<^verbatim>\<open>markdown.trim().split('\n').filter(line => line.trim())\<close>\<close>

definition tableLines :: "jsstring \<Rightarrow> jsstring list" where
  "tableLines markdown = filter (\<lambda>line. trim line \<noteq> []) (splitOn 10 (trim markdown))"

definition parseMarkdownTable :: "jsstring \<Rightarrow> TableData option" where
  "parseMarkdownTable markdown =
     (let lines = tableLines markdown
      in if length lines < 3 then None
         else (let headers = map cleanHeader (splitCells (lines ! 0))
               in if length headers = 0 then None
                  else (let rows = dataRows (length headers) (drop 2 lines)
                        in if length rows = 0 then None
                           else Some \<lparr>headers = headers, rows = rows\<rparr>)))"

section \<open>Sample lexers and inputs\<close>

text \<open>A lexer that throws on every buffer.\<close>

definition failingLexer :: lexer where
  "failingLexer b = Inl LexerError"

text \<open>A paragraph of plain text, as the lexer gives it: one text token inside.\<close>

definition paragraphOf :: "jsstring \<Rightarrow> mtoken" where
  "paragraphOf s =
     MToken M_paragraph s s [] 0 False (Some [inlineToken M_text s s]) None None None"

text \<open>A lexer that reads the buffer as one paragraph of plain text.\<close>

definition textLexer :: lexer where
  "textLexer b = Inr [paragraphOf b]"

text \<open>A heading of plain text as the lexer gives it: its depth, its text and its source.\<close>

definition headingOf :: "nat \<Rightarrow> jsstring \<Rightarrow> jsstring \<Rightarrow> mtoken" where
  "headingOf d s r =
     MToken M_heading r s [] d False (Some [inlineToken M_text s s]) None None None"

text \<open>A quoted paragraph of plain text as the lexer gives it, after the marker \<^verbatim>\<open>> \<close>.\<close>

definition quoteOf :: "jsstring \<Rightarrow> mtoken" where
  "quoteOf s =
     MToken M_blockquote (js ''> '' @ s) s [] 0 False (Some [paragraphOf s]) None None None"

text \<open>
  The second step of the specification's streaming scenario: a closed heading, then a
  paragraph that ends inside a bold run.
\<close>

definition helloSource :: jsstring where
  "helloSource = js ''# Hello\<newline>\<newline>This is **bo''"

definition helloLexer :: lexer where
  "helloLexer b =
     Inr [headingOf 1 (js ''Hello'') (js ''# Hello\<newline>\<newline>''),
          paragraphOf (js ''This is **bo'')]"

text \<open>A heading, then a quoted paragraph.\<close>

definition titleQuoteSource :: jsstring where
  "titleQuoteSource = js ''# T\<newline>> q''"

definition titleQuoteLexer :: lexer where
  "titleQuoteLexer b = Inr [headingOf 1 (js ''T'') (js ''# T\<newline>''), quoteOf (js ''q'')]"

text \<open>A lexer that reads the buffer as one thematic break.\<close>

definition hrLexer :: lexer where
  "hrLexer b = Inr [MToken M_hr b [] [] 0 False None None None None]"

text \<open>A fenced code block with a language tag and a content, as the lexer gives it.\<close>

definition fence :: "jsstring \<Rightarrow> jsstring \<Rightarrow> jsstring" where
  "fence tag code = js ''```'' @ tag @ [10] @ code @ [10] @ js ''```''"

definition codeBlock :: "jsstring \<Rightarrow> jsstring \<Rightarrow> mtoken" where
  "codeBlock tag code = MToken M_code (fence tag code) code tag 0 False None None None None"

definition graphTD :: jsstring where
  "graphTD = js ''graph TD\<newline>A-->B''"

definition pythonFenceLexer :: lexer where
  "pythonFenceLexer b = Inr [codeBlock (js ''python'') graphTD]"

definition plainFenceLexer :: lexer where
  "plainFenceLexer b = Inr [codeBlock [] graphTD]"

text \<open>A pipe table with two good lines and a data line that is one cell short.\<close>

definition sampleTable :: jsstring where
  "sampleTable = js ''| a | b |\<newline>| --- | --- |\<newline>| 1 | 2 |\<newline>| 3 |''"

text \<open>Table tokens as the lexer gives them, and lexers that read the buffer as that table.\<close>

definition cellOf :: "jsstring \<Rightarrow> cell" where
  "cellOf t = \<lparr>c_text = t, c_content = []\<rparr>"

definition tableToken :: "jsstring \<Rightarrow> cell list \<Rightarrow> cell list list \<Rightarrow> mtoken" where
  "tableToken r header rws = MToken M_table r [] [] 0 False None None (Some header) (Some rws)"

definition abSource :: jsstring where
  "abSource = js ''| a | b |\<newline>|---|---|\<newline>| 1 | 2 |''"

definition abTable :: mtoken where
  "abTable = tableToken abSource [cellOf (js ''a''), cellOf (js ''b'')]
     [[cellOf (js ''1''), cellOf (js ''2'')]]"

definition abLexer :: lexer where
  "abLexer b = Inr [abTable]"

definition headOnlySource :: jsstring where
  "headOnlySource = js ''| a | b |\<newline>|---|---|''"

definition headOnlyLexer :: lexer where
  "headOnlyLexer b = Inr [tableToken headOnlySource [cellOf (js ''a''), cellOf (js ''b'')] []]"

text \<open>The malformed input of the specification's scenarios.\<close>

definition malformed :: jsstring where
  "malformed = js ''**unterminated bold with [broken link(''"

section \<open>Evaluation and helper lemmas\<close>

lemmas pre_defs = preprocessText_def literal_def numericRef_def hexRef_def italicTag_def
  isDigit_def isHexDigit_def fromCharCode_def parseInt_def digitValue_def isLineTerminator_def

lemmas tail_defs = openStrong_def openEm_def openCode_def openLink_def openHeading_def
  openTail_def hashes_def isSpace_def handleIncompleteMarkdown_def tailPatterns_def markLast_def

lemmas conv_defs = convertTokens_def processTokensWithDiagramDetection_def detectDiagram_def
  withRaw_def token_def inlineToken_def orElse_def

lemmas sess_defs = addChunk_def afterAppend_def parse_def tryParse_def newParser_def
  primaryOk_def getTokens_def

lemmas line_defs = parsePartial_def parseIncompleteLine_def headingPrefix_def trim_def
  bulletPrefix_def numberPrefix_def numberDot_def stripMarker_def stripQuote_def
  parseInlineFormatting_def

subsection \<open>Conversion, detector and session\<close>

lemma concatE_Inr_set:
  "concatE rs = Inr ys \<Longrightarrow> x \<in> set ys \<Longrightarrow> \<exists>xs. Inr xs \<in> set rs \<and> x \<in> set xs"
proof (induction rs arbitrary: ys)
  case Nil
  then show ?case by simp
next
  case (Cons r rs)
  then show ?case by (fastforce split: sum.splits)
qed

text \<open>No token that convertToken builds is flagged or is a blockquote.\<close>

lemma convertToken_fresh:
  "convertToken t = Inr ts \<Longrightarrow> x \<in> set ts \<Longrightarrow> incomplete x = None \<and> ptype x \<noteq> Blockquote"
proof (induction t arbitrary: ts x rule: convertToken.induct)
  case (1 ty r tx l d ord toks its h rws)
  show ?case
  proof (cases "ty = M_blockquote")
    case True
    with "1.prems"(1) obtain cs where cs: "toks = Some cs" "concatE (map convertToken cs) = Inr ts"
      by (auto split: option.splits)
    from concatE_Inr_set [OF cs(2) "1.prems"(2)] obtain c xs
      where "c \<in> set cs" "convertToken c = Inr xs" "x \<in> set xs"
      by (metis (no_types, lifting) imageE list.set_map)
    with "1.IH" [OF True cs(1)] show ?thesis by blast
  next
    case False
    with "1.prems" show ?thesis
      by (cases ty) (auto simp: withRaw_def token_def split: option.splits)
  qed
qed

lemma convertTokens_fresh:
  "convertTokens ms = Inr ts \<Longrightarrow> x \<in> set ts \<Longrightarrow> incomplete x = None \<and> ptype x \<noteq> Blockquote"
  unfolding convertTokens_def
  by (metis (no_types, lifting) concatE_Inr_set convertToken_fresh imageE list.set_map)

lemma markLast_idem: "ts \<noteq> [] \<Longrightarrow> markLast (markLast ts) = markLast ts"
  by (simp add: markLast_def)

text \<open>The loop over the five patterns sets the flag when one of them matches.\<close>

lemma handleIncompleteMarkdown_eq:
  "handleIncompleteMarkdown b ts =
     (if ts \<noteq> [] \<and> (openStrong b \<or> openEm b \<or> openCode b \<or> openLink b \<or> openHeading b)
      then markLast ts else ts)"
proof (cases "ts = []")
  case True
  then show ?thesis by (simp add: handleIncompleteMarkdown_def)
next
  case False
  then show ?thesis
    using markLast_idem [OF False]
    by (simp add: handleIncompleteMarkdown_def tailPatterns_def)
qed

lemma tryParse_Inr:
  assumes "tryParse lx st = Inr (result, st')"
  obtains ms conv where "lx (buffer st) = Inr ms"
    and "convertTokens (processTokensWithDiagramDetection ms) = Inr conv"
    and "result = (if parseIncomplete st then handleIncompleteMarkdown (buffer st) conv else conv)"
    and "st' = st\<lparr>tokens := result\<rparr>"
  using assms
  by (auto simp: tryParse_def Let_def split: sum.splits if_splits)

lemma parse_cases:
  "parse lx st = (if primaryOk lx st then tryParse lx st else Inr (parsePartial (buffer st), st))"
  by (simp add: parse_def primaryOk_def split: sum.splits)

lemma primaryOk_Inr: "primaryOk lx st \<Longrightarrow> \<exists>r s. tryParse lx st = Inr (r, s)"
  by (auto simp: primaryOk_def split: sum.splits)

lemma markLast_butlast: "butlast (markLast ts) = butlast ts"
  by (simp add: markLast_def)

lemma markLast_ptype: "ts \<noteq> [] \<Longrightarrow> map ptype (markLast ts) = map ptype ts"
proof -
  assume ne: "ts \<noteq> []"
  have "map ptype (butlast ts @ [(last ts)\<lparr>incomplete := Some True\<rparr>])
      = map ptype (butlast ts @ [last ts])" by simp
  with ne show ?thesis by (simp add: markLast_def)
qed

lemma handle_butlast: "butlast (handleIncompleteMarkdown b ts) = butlast ts"
  by (simp add: handleIncompleteMarkdown_eq markLast_butlast)

lemma handle_ptype: "map ptype (handleIncompleteMarkdown b ts) = map ptype ts"
  by (simp add: handleIncompleteMarkdown_eq markLast_ptype)

lemma tryParse_butlast_not_provisional:
  assumes "tryParse lx st = Inr (result, st')" and "t \<in> set (butlast result)"
  shows "\<not> provisional t"
proof -
  from assms(1) obtain ms conv where
    conv: "convertTokens (processTokensWithDiagramDetection ms) = Inr conv"
    and res: "result = (if parseIncomplete st then handleIncompleteMarkdown (buffer st) conv else conv)"
    by (rule tryParse_Inr)
  from res have "butlast result = butlast conv" by (simp add: handle_butlast)
  with assms(2) have "t \<in> set conv" by (auto dest: in_set_butlastD)
  with conv have "incomplete t = None" by (simp add: convertTokens_fresh)
  then show ?thesis by (simp add: provisional_def)
qed

lemma tryParse_no_blockquote:
  assumes "tryParse lx st = Inr (result, st')" and "t \<in> set result"
  shows "ptype t \<noteq> Blockquote"
proof -
  from assms(1) obtain ms conv where
    conv: "convertTokens (processTokensWithDiagramDetection ms) = Inr conv"
    and res: "result = (if parseIncomplete st then handleIncompleteMarkdown (buffer st) conv else conv)"
    by (rule tryParse_Inr)
  from res have "map ptype result = map ptype conv" by (simp add: handle_ptype)
  then have "ptype ` set result = ptype ` set conv" by (metis set_map)
  with assms(2) obtain c where "c \<in> set conv" "ptype c = ptype t" by (metis imageE imageI)
  with conv show ?thesis by (metis convertTokens_fresh)
qed

lemma at_most_last:
  assumes "\<forall>t \<in> set (butlast xs). \<not> P t"
  shows "length (filter P xs) \<le> 1 \<and> (\<forall>i < length xs. P (xs ! i) \<longrightarrow> Suc i = length xs)"
proof (cases "xs = []")
  case True
  then show ?thesis by simp
next
  case False
  then have xs: "xs = butlast xs @ [last xs]" by simp
  from assms have "filter P (butlast xs) = []" by (simp add: filter_empty_conv)
  then have "filter P xs = filter P [last xs]" by (subst xs) simp
  then have len: "length (filter P xs) \<le> 1" by simp
  have "\<forall>i < length xs. P (xs ! i) \<longrightarrow> Suc i = length xs"
  proof (intro allI impI)
    fix i assume i: "i < length xs" and p: "P (xs ! i)"
    show "Suc i = length xs"
    proof (rule ccontr)
      assume "Suc i \<noteq> length xs"
      with i have lt: "i < length (butlast xs)" by simp
      then have "butlast xs ! i = xs ! i" by (simp add: nth_butlast)
      with lt have "xs ! i \<in> set (butlast xs)" by (metis nth_mem)
      with assms p show False by blast
    qed
  qed
  with len show ?thesis by simp
qed

lemma blockquote_line:
  "ptype (parseIncompleteLine line) = Blockquote \<longleftrightarrow> prefix (js ''>'') line"
proof (cases line)
  case Nil
  then show ?thesis
    by (simp add: parseIncompleteLine_def headingPrefix_def hashes_def token_def
        parseInlineFormatting_def)
next
  case (Cons c cs)
  show ?thesis
  proof (cases "c = 62")
    case True
    with Cons have "headingPrefix line = None"
      by (simp add: headingPrefix_def hashes_def)
    with True Cons show ?thesis
      by (simp add: parseIncompleteLine_def token_def)
  next
    case False
    with Cons show ?thesis
      by (simp add: parseIncompleteLine_def token_def parseInlineFormatting_def
          split: option.splits)
  qed
qed

lemma addChunk_returns: "\<exists>result st'. addChunk lx st chunk = Inr (result, st')"
proof (cases "primaryOk lx (afterAppend st chunk)")
  case True
  then show ?thesis
    using primaryOk_Inr [OF True] by (simp add: addChunk_def parse_cases)
next
  case False
  then show ?thesis by (simp add: addChunk_def parse_cases)
qed

lemma addChunks_return:
  "\<exists>results st'. addChunks lx st chunks = Inr (results, st') \<and> length results = length chunks"
proof (induction chunks arbitrary: st)
  case Nil
  show ?case by simp
next
  case (Cons chunk chunks)
  obtain r s where r: "addChunk lx st chunk = Inr (r, s)"
    using addChunk_returns by blast
  from Cons.IH [of s] obtain rs s' where
    "addChunks lx s chunks = Inr (rs, s')" "length rs = length chunks" by blast
  with r show ?case by simp
qed

lemma stillOpen_eq:
  "stillOpen b \<longleftrightarrow> openStrong b \<or> openEm b \<or> openCode b \<or> openLink b \<or> openHeading b"
  by (simp add: stillOpen_def tailPatterns_def)

lemma markLast_last:
  "ts \<noteq> [] \<Longrightarrow> content (last ts) \<noteq> [] \<Longrightarrow> last (markLast ts) = (last ts)\<lparr>incomplete := Some True\<rparr>"
  by (simp add: markLast_def)

lemma markLast_content: "ts \<noteq> [] \<Longrightarrow> content (last (markLast ts)) = content (last ts)"
  by (simp add: markLast_def)

text \<open>
  What a blockquote of the lexer gives to the converted array: its children, passed through
  processInlineTokens and then converted, at the place of the blockquote.
\<close>

lemma processInlineTokens_append:
  "processInlineTokens (xs @ ys) = processInlineTokens xs @ processInlineTokens ys"
proof (induction xs)
  case Nil
  show ?case by simp
next
  case (Cons x xs)
  then show ?case by (cases x) simp
qed

lemma concatE_append:
  "concatE (rs @ ss) =
     (case concatE rs of
        Inl e \<Rightarrow> Inl e
      | Inr xs \<Rightarrow> (case concatE ss of Inl e \<Rightarrow> Inl e | Inr ys \<Rightarrow> Inr (xs @ ys)))"
  by (induction rs) (auto split: sum.splits)

lemma convertTokens_append:
  "convertTokens (xs @ ys) =
     (case convertTokens xs of
        Inl e \<Rightarrow> Inl e
      | Inr rs \<Rightarrow> (case convertTokens ys of Inl e \<Rightarrow> Inl e | Inr ss \<Rightarrow> Inr (rs @ ss)))"
  unfolding convertTokens_def by (simp add: concatE_append)

lemma convertTokens_append_Inr:
  assumes "convertTokens (xs @ ys) = Inr r"
  obtains rs ss where "convertTokens xs = Inr rs" and "convertTokens ys = Inr ss" and "r = rs @ ss"
  using assms by (auto simp: convertTokens_append split: sum.splits)

lemma detectDiagram_other: "m_type t \<noteq> M_code \<Longrightarrow> detectDiagram t = t"
  by (simp add: detectDiagram_def)

lemma blockquote_contribution:
  assumes "m_type b = M_blockquote"
    and "convertTokens (processInlineTokens [b]) = Inr r"
  shows "\<exists>children. m_tokens b = Some children
           \<and> convertTokens (processInlineTokens children) = Inr r"
proof (cases b)
  case (MToken ty rw tx l d ord toks its h rws)
  with assms(1) have ty: "ty = M_blockquote" by simp
  show ?thesis
  proof (cases toks)
    case None
    with MToken ty assms(2) show ?thesis by (simp add: convertTokens_def)
  next
    case (Some cs)
    show ?thesis
    proof (cases "cs = []")
      case True
      with MToken ty Some assms(2) show ?thesis by (simp add: convertTokens_def)
    next
      case False
      with MToken ty Some assms(2) show ?thesis by simp
    qed
  qed
qed

lemma blockquote_in_place:
  assumes run: "tryParse lx st = Inr (result, st')"
    and lex: "lx (buffer st) = Inr (ts1 @ [b] @ ts2)"
    and bq: "m_type b = M_blockquote"
  shows "\<exists>children r1 rc r2. m_tokens b = Some children
           \<and> convertTokens (processTokensWithDiagramDetection ts1) = Inr r1
           \<and> convertTokens (processInlineTokens children) = Inr rc
           \<and> convertTokens (processTokensWithDiagramDetection ts2) = Inr r2
           \<and> result = (if parseIncomplete st
                        then handleIncompleteMarkdown (buffer st) (r1 @ rc @ r2)
                        else r1 @ rc @ r2)"
proof -
  from run obtain ms conv where ms: "lx (buffer st) = Inr ms"
    and conv: "convertTokens (processTokensWithDiagramDetection ms) = Inr conv"
    and res: "result = (if parseIncomplete st then handleIncompleteMarkdown (buffer st) conv
                        else conv)"
    by (rule tryParse_Inr)
  from ms lex have ms_eq: "ms = ts1 @ [b] @ ts2" by simp
  from bq have "detectDiagram b = b" by (simp add: detectDiagram_other)
  then have "processTokensWithDiagramDetection ms =
      processTokensWithDiagramDetection ts1 @ processInlineTokens [b]
        @ processTokensWithDiagramDetection ts2"
    using processInlineTokens_append [of "[b]" "map detectDiagram ts2"]
    by (simp add: ms_eq processTokensWithDiagramDetection_def processInlineTokens_append
        del: processInlineTokens.simps)
  with conv obtain r1 r23 where r1: "convertTokens (processTokensWithDiagramDetection ts1) = Inr r1"
    and r23: "convertTokens (processInlineTokens [b] @ processTokensWithDiagramDetection ts2)
               = Inr r23"
    and c1: "conv = r1 @ r23"
    by (auto elim: convertTokens_append_Inr)
  from r23 obtain rb r2 where rb: "convertTokens (processInlineTokens [b]) = Inr rb"
    and r2: "convertTokens (processTokensWithDiagramDetection ts2) = Inr r2"
    and c2: "r23 = rb @ r2"
    by (auto elim: convertTokens_append_Inr)
  from blockquote_contribution [OF bq rb] obtain children where
    "m_tokens b = Some children" "convertTokens (processInlineTokens children) = Inr rb"
    by blast
  with r1 r2 c1 c2 res show ?thesis by blast
qed

subsection \<open>The line parser\<close>

lemma hashes_nth: "n < hashes s \<Longrightarrow> s ! n = 35"
proof -
  assume n: "n < hashes s"
  then have "takeWhile (\<lambda>c. c = 35) s ! n = s ! n"
    by (simp add: hashes_def takeWhile_nth)
  moreover from n have "takeWhile (\<lambda>c. c = 35) s ! n \<in> set (takeWhile (\<lambda>c. c = 35) s)"
    by (simp add: hashes_def)
  ultimately show ?thesis by (auto dest: set_takeWhileD)
qed

lemma not_space_hash: "\<not> isSpace 35"
  by (simp add: isSpace_def)

lemma heading_candidate:
  "n \<le> hashes s \<and> n < length s \<and> isSpace (s ! n) \<longleftrightarrow>
   n = hashes s \<and> hashes s < length s \<and> isSpace (s ! hashes s)"
proof (cases "n < hashes s")
  case True
  then have "s ! n = 35" by (rule hashes_nth)
  with True show ?thesis by (auto simp: not_space_hash)
next
  case False
  then show ?thesis by auto
qed

lemma filter_one_of_six:
  "filter (\<lambda>n. n = h \<and> Q) [6, 5, 4, 3, 2, 1 :: nat] = (if Q \<and> 1 \<le> h \<and> h \<le> 6 then [h] else [])"
proof -
  have "h = 0 \<or> h = 1 \<or> h = 2 \<or> h = 3 \<or> h = 4 \<or> h = 5 \<or> h = 6 \<or> 6 < h" by arith
  then show ?thesis by (elim disjE) auto
qed

lemma headingPrefix_Some:
  "headingPrefix s = Some k \<longleftrightarrow>
   1 \<le> hashes s \<and> hashes s \<le> 6 \<and> hashes s < length s \<and> isSpace (s ! hashes s)
   \<and> k = Suc (hashes s)"
  unfolding headingPrefix_def heading_candidate filter_one_of_six
  by auto

lemma heading_line:
  "ptype (parseIncompleteLine line) = Heading \<longleftrightarrow> headingPrefix line \<noteq> None"
  by (auto simp: parseIncompleteLine_def token_def parseInlineFormatting_def
      split: option.splits)

lemma trim_Nil: "trim s = [] \<longleftrightarrow> (\<forall>c \<in> set s. isSpace c)"
proof
  assume "trim s = []"
  then have all: "\<forall>c \<in> set (dropWhile isSpace s). isSpace c"
    by (simp add: trim_def dropWhile_eq_Nil_conv)
  show "\<forall>c \<in> set s. isSpace c"
  proof (cases "dropWhile isSpace s")
    case Nil
    then show ?thesis by (simp add: dropWhile_eq_Nil_conv)
  next
    case (Cons c cs)
    then have "\<not> isSpace c" by (metis hd_dropWhile list.sel(1) list.distinct(1))
    with all Cons show ?thesis by simp
  qed
next
  assume "\<forall>c \<in> set s. isSpace c"
  then show "trim s = []" by (auto simp: trim_def dest: set_dropWhileD)
qed

lemma parseLines_eq:
  "parseLines ls = map parseIncompleteLine (filter (\<lambda>l. trim l \<noteq> []) ls)"
  by (induction ls) simp_all

lemma splitOn_not_Nil: "splitOn d s \<noteq> []"
  by (induction s) (auto split: list.splits)

lemma heading_not_blank:
  assumes "headingPrefix l = Some k"
  shows "trim l \<noteq> []"
proof -
  from assms have h: "1 \<le> hashes l" "hashes l < length l"
    by (simp_all add: headingPrefix_Some)
  then have "l ! 0 = 35" by (simp add: hashes_nth)
  moreover from h have "l ! 0 \<in> set l" by (metis nth_mem less_trans zero_less_one less_le_trans)
  ultimately show ?thesis by (metis trim_Nil not_space_hash)
qed

lemma splitOn_no_sep: "l \<in> set (splitOn d s) \<Longrightarrow> d \<notin> set l"
proof (induction s arbitrary: l)
  case Nil
  then show ?case by simp
next
  case (Cons c cs)
  then show ?case by (auto split: if_splits list.splits)
qed

lemma last_filter_keep: "xs \<noteq> [] \<Longrightarrow> P (last xs) \<Longrightarrow> last (filter P xs) = last xs"
proof (induction xs)
  case Nil
  then show ?case by simp
next
  case (Cons x xs)
  show ?case
  proof (cases "xs = []")
    case True
    with Cons.prems show ?thesis by simp
  next
    case False
    with Cons have "last (filter P xs) = last xs" by simp
    moreover from False Cons.prems have "filter P xs \<noteq> []"
      by (metis filter_empty_conv last_in_set last_ConsR)
    ultimately show ?thesis using False by simp
  qed
qed

subsection \<open>Pipe tables\<close>

lemma dataRows_eq:
  "dataRows n ls = map (map cleanCell) (filter (\<lambda>cells. length cells = n) (map splitCells ls))"
  by (induction ls) (simp_all add: Let_def)

lemma parseMarkdownTable_Some:
  assumes "parseMarkdownTable md = Some td"
  shows "3 \<le> length (tableLines md)"
    and "headers td = map cleanHeader (splitCells (tableLines md ! 0))"
    and "rows td = dataRows (length (headers td)) (drop 2 (tableLines md))"
    and "headers td \<noteq> []" and "rows td \<noteq> []"
  using assms
  by (auto simp: parseMarkdownTable_def Let_def split: if_splits)

lemmas table_defs = parseMarkdownTable_def tableLines_def splitCells_def dropEmptyFirst_def
  dropEmptyLast_def cleanHeader_def cleanCell_def unwrap_def

lemmas fence_defs = pythonFenceLexer_def plainFenceLexer_def codeBlock_def fence_def graphTD_def
  asMermaid_def looksLikeMermaidCode_def toLowerCase_def lowerUnit_def mermaidKeywords_def

lemma splitOn_no_sep_id: "d \<notin> set x \<Longrightarrow> splitOn d x = [x]"
  by (induction x) auto

lemma splitOn_append_sep: "d \<notin> set x \<Longrightarrow> splitOn d (x @ d # y) = x # splitOn d y"
  by (induction x) (auto simp: splitOn_not_Nil split: list.splits)

lemma splitOn_join:
  "ls \<noteq> [] \<Longrightarrow> \<forall>l \<in> set ls. d \<notin> set l \<Longrightarrow> splitOn d (join [d] ls) = ls"
proof (induction ls rule: induct_list012)
  case 1
  then show ?case by simp
next
  case (2 x)
  then show ?case by (simp add: splitOn_no_sep_id)
next
  case (3 x y ys)
  then show ?case by (simp add: splitOn_append_sep)
qed

lemma splitOn_join_sep:
  "\<forall>l \<in> set ls. d \<notin> set l \<Longrightarrow> ls \<noteq> [] \<Longrightarrow> splitOn d (join [d] ls @ [d]) = ls @ [[]]"
proof (induction ls rule: induct_list012)
  case 1
  then show ?case by simp
next
  case (2 x)
  then show ?case using splitOn_append_sep [of d x "[]"] by simp
next
  case (3 x y ys)
  then show ?case using splitOn_append_sep [of d x "join [d] (y # ys) @ [d]"] by simp
qed

lemma pipe_join:
  "cells \<noteq> [] \<Longrightarrow> [32] @ join (js '' | '') cells @ [32] = join [124] (map padded cells)"
proof (induction cells rule: induct_list012)
  case 1
  then show ?case by simp
next
  case (2 x)
  then show ?case by (simp add: padded_def)
next
  case (3 x y ys)
  then have ih: "[32] @ join (js '' | '') (y # ys) @ [32] = join [124] (map padded (y # ys))"
    by simp
  have "[32] @ join (js '' | '') (x # y # ys) @ [32]
      = padded x @ [124] @ ([32] @ join (js '' | '') (y # ys) @ [32])"
    by (simp add: padded_def)
  also have "\<dots> = padded x @ [124] @ join [124] (map padded (y # ys))"
    by (simp only: ih)
  also have "\<dots> = join [124] (map padded (x # y # ys))" by simp
  finally show ?case .
qed

lemma pipeLine_eq:
  "cells \<noteq> [] \<Longrightarrow> pipeLine cells = 124 # join [124] (map padded cells) @ [124]"
proof -
  assume ne: "cells \<noteq> []"
  have "pipeLine cells = 124 # ([32] @ join (js '' | '') cells @ [32]) @ [124]"
    by (simp add: pipeLine_def)
  with pipe_join [OF ne] show ?thesis by simp
qed

lemma trim_empty: "trim [] = []"
  by (simp add: trim_def)

lemma splitCells_pipeLine:
  assumes "cells \<noteq> []" and "\<forall>c \<in> set cells. 124 \<notin> set c"
  shows "splitCells (pipeLine cells) = map (\<lambda>c. trim (padded c)) cells"
proof -
  from assms(2) have np: "\<forall>l \<in> set (map padded cells). 124 \<notin> set l"
    by (simp add: padded_def)
  from assms(1) have ne: "map padded cells \<noteq> []" by simp
  have "splitOn 124 (pipeLine cells) = [] # map padded cells @ [[]]"
    using splitOn_join_sep [OF np ne] by (simp add: pipeLine_eq [OF assms(1)])
  then have "map trim (splitOn 124 (pipeLine cells)) = [] # map (\<lambda>c. trim (padded c)) cells @ [[]]"
    by (simp add: trim_empty comp_def)
  then show ?thesis by (simp add: splitCells_def dropEmptyFirst_def dropEmptyLast_def)
qed

lemma join_set: "set (join sep ls) \<subseteq> set sep \<union> \<Union> (set ` set ls)"
  by (induction sep ls rule: join.induct) auto

lemma pipeLine_no_newline:
  assumes "\<forall>c \<in> set cells. 10 \<notin> set c"
  shows "10 \<notin> set (pipeLine cells)"
proof
  assume "10 \<in> set (pipeLine cells)"
  then have "10 \<in> set (join (js '' | '') cells)" by (simp add: pipeLine_def)
  with join_set [of "js '' | ''" cells] have "10 \<in> \<Union> (set ` set cells)" by auto
  with assms show False by auto
qed

lemma pipeLine_hd_last: "hd (pipeLine cells) = 124 \<and> last (pipeLine cells) = 124 \<and> pipeLine cells \<noteq> []"
  by (simp add: pipeLine_def)

lemma not_space_pipe: "\<not> isSpace 124"
  by (simp add: isSpace_def)

lemma trim_id: "s \<noteq> [] \<Longrightarrow> \<not> isSpace (hd s) \<Longrightarrow> \<not> isSpace (last s) \<Longrightarrow> trim s = s"
proof -
  assume ne: "s \<noteq> []" and h: "\<not> isSpace (hd s)" and l: "\<not> isSpace (last s)"
  from ne h have "dropWhile isSpace s = s" by (cases s) simp_all
  moreover from ne l have "dropWhile isSpace (rev s) = rev s"
    by (cases "rev s") (simp_all add: last_rev [symmetric] hd_rev)
  ultimately show ?thesis by (simp add: trim_def)
qed

lemma pipeLine_not_blank: "trim (pipeLine cells) \<noteq> []"
  using pipeLine_hd_last [of cells] by (simp add: trim_id not_space_pipe)

lemma join_hd_last:
  assumes "ls \<noteq> []" and "\<forall>l \<in> set ls. l \<noteq> []"
  shows "join sep ls \<noteq> [] \<and> hd (join sep ls) = hd (hd ls) \<and> last (join sep ls) = last (last ls)"
  using assms
proof (induction ls rule: induct_list012)
  case 1
  then show ?case by simp
next
  case (2 x)
  then show ?case by simp
next
  case (3 x y ys)
  then show ?case by simp
qed

lemma tableLines_canonical:
  assumes "\<forall>c \<in> set H \<union> \<Union> (set ` set R). 10 \<notin> set c"
  shows "tableLines (canonicalTable H R) =
           pipeLine H # pipeLine (replicate (length H) (js ''---'')) # map pipeLine R"
proof -
  let ?ls = "pipeLine H # pipeLine (replicate (length H) (js ''---'')) # map pipeLine R"
  have nl: "\<forall>l \<in> set ?ls. 10 \<notin> set l"
  proof
    fix l assume "l \<in> set ?ls"
    then consider "l = pipeLine H" | "l = pipeLine (replicate (length H) (js ''---''))"
      | r where "r \<in> set R" "l = pipeLine r" by auto
    then show "10 \<notin> set l"
    proof cases
      case 1
      with assms show ?thesis by (simp add: pipeLine_no_newline)
    next
      case 2
      then show ?thesis by (simp add: pipeLine_no_newline)
    next
      case 3
      with assms have "\<forall>c \<in> set r. 10 \<notin> set c" by auto
      with 3 show ?thesis by (simp add: pipeLine_no_newline)
    qed
  qed
  have ne: "\<forall>l \<in> set ?ls. l \<noteq> []" using pipeLine_hd_last by auto
  have hl: "canonicalTable H R \<noteq> [] \<and> hd (canonicalTable H R) = hd (hd ?ls)
      \<and> last (canonicalTable H R) = last (last ?ls)"
    unfolding canonicalTable_def by (rule join_hd_last [OF _ ne]) simp
  have "last ?ls \<in> set ?ls" by (rule last_in_set) simp
  then have "last (last ?ls) = 124" using pipeLine_hd_last by auto
  with hl have "trim (canonicalTable H R) = canonicalTable H R"
    using pipeLine_hd_last [of H] by (simp add: trim_id not_space_pipe)
  moreover have "splitOn 10 (canonicalTable H R) = ?ls"
    unfolding canonicalTable_def by (rule splitOn_join [OF _ nl]) simp
  moreover have "filter (\<lambda>line. trim line \<noteq> []) ?ls = ?ls"
    using pipeLine_not_blank by (auto simp: filter_id_conv)
  ultimately show ?thesis by (simp add: tableLines_def)
qed

lemma parse_canonical:
  assumes H: "H \<noteq> []" and R: "R \<noteq> []"
    and len: "\<forall>r \<in> set R. length r = length H"
    and nl: "\<forall>c \<in> set H \<union> \<Union> (set ` set R). 10 \<notin> set c"
    and np: "\<forall>c \<in> set H \<union> \<Union> (set ` set R). 124 \<notin> set c"
  shows "\<exists>td. parseMarkdownTable (canonicalTable H R) = Some td
           \<and> length (headers td) = length H \<and> length (rows td) = length R"
proof -
  let ?ls = "pipeLine H # pipeLine (replicate (length H) (js ''---'')) # map pipeLine R"
  have tl: "tableLines (canonicalTable H R) = ?ls" by (rule tableLines_canonical [OF nl])
  from np have "\<forall>c \<in> set H. 124 \<notin> set c" by auto
  then have hc: "length (splitCells (pipeLine H)) = length H"
    by (simp add: splitCells_pipeLine [OF H])
  have rc: "\<forall>r \<in> set R. length (splitCells (pipeLine r)) = length H"
  proof
    fix r assume r: "r \<in> set R"
    with len H have "r \<noteq> []" by auto
    moreover from np r have "\<forall>c \<in> set r. 124 \<notin> set c" by auto
    ultimately have "length (splitCells (pipeLine r)) = length r"
      by (simp add: splitCells_pipeLine)
    with len r show "length (splitCells (pipeLine r)) = length H" by simp
  qed
  then have "filter (\<lambda>cells. length cells = length H) (map splitCells (map pipeLine R))
      = map splitCells (map pipeLine R)"
    by (auto simp: filter_id_conv)
  then have dr: "length (dataRows (length H) (map pipeLine R)) = length R"
    by (simp add: dataRows_eq)
  from dr R have rows_ne: "dataRows (length H) (map pipeLine R) \<noteq> []" by auto
  from hc H have heads_ne: "splitCells (pipeLine H) \<noteq> []" by auto
  from tl hc dr rows_ne heads_ne H R show ?thesis
    by (simp add: parseMarkdownTable_def Let_def)
qed

lemma cellString_text: "c_text c \<noteq> [] \<Longrightarrow> cellString c = c_text c"
  by (simp add: cellString_def orElse_def)

lemma convert_canonical:
  assumes "m_header tbl = Some header" and "m_rows tbl = Some rws"
    and "\<forall>c \<in> set header \<union> \<Union> (set ` set rws). c_text c \<noteq> []"
  shows "convertTableTokenToMarkdown tbl
           = canonicalTable (map c_text header) (map (map c_text) rws)"
proof -
  from assms(3) have h: "map cellString header = map c_text header"
    by (simp add: cellString_text)
  have cs: "\<And>row c. row \<in> set rws \<Longrightarrow> c \<in> set row \<Longrightarrow> cellString c = c_text c"
    using assms(3) by (blast intro: cellString_text)
  have r: "map (\<lambda>row. pipeLine (map cellString row)) rws
      = map pipeLine (map (map c_text) rws)"
    by (auto simp: cs intro!: arg_cong [where f = pipeLine])
  have "convertTableTokenToMarkdown tbl =
      join [10] ([pipeLine (map cellString header),
                  pipeLine (map (\<lambda>_. js ''---'') (map cellString header))]
                 @ map (\<lambda>row. pipeLine (map cellString row)) rws)"
    using assms(1,2) by (simp add: convertTableTokenToMarkdown_def Let_def)
  also have "\<dots> =
      join [10] ([pipeLine (map c_text header),
                  pipeLine (map (\<lambda>_. js ''---'') (map c_text header))]
                 @ map pipeLine (map (map c_text) rws))"
    by (simp only: h r)
  also have "\<dots> = canonicalTable (map c_text header) (map (map c_text) rws)"
    by (simp add: canonicalTable_def map_replicate_const)
  finally show ?thesis .
qed

lemma table_token_converted:
  assumes "m_type tbl = M_table"
  shows "convertTokens (processTokensWithDiagramDetection [tbl])
           = Inr [withRaw Table (convertTableTokenToMarkdown tbl) (m_raw tbl)]"
  using assms
  by (cases tbl) (simp add: convertTokens_def processTokensWithDiagramDetection_def detectDiagram_def)

lemma handle_single:
  "\<exists>t'. handleIncompleteMarkdown b [t] = [t'] \<and> ptype t' = ptype t \<and> content t' = content t"
  by (simp add: handleIncompleteMarkdown_eq markLast_def)

subsection \<open>Global replacement and character references\<close>









































subsection \<open>A reference in any context\<close>






































section \<open>C1: addChunk never throws\<close>

text \<open>
  C1. For every lexer (also one that throws), every session and every sequence of chunks,
  each call of addChunk returns an array of tokens and none raises: the run of calls ends
  in \<open>Inr\<close> with one array per chunk. When the \<^verbatim>\<open>try\<close> block of parse does not complete,
  parse returns what the line parser parsePartial makes of the buffer, and parsePartial is
  a total function of the buffer.
\<close>

theorem addChunk_never_throws:
  "(\<exists>results st'. addChunks lx st chunks = Inr (results, st') \<and> length results = length chunks)
   \<and> (\<not> primaryOk lx st \<longrightarrow> parse lx st = Inr (parsePartial (buffer st), st))"
  using addChunks_return [of lx st chunks] by (simp add: parse_cases)

text \<open>
  The malformed input of the specification, with a lexer that throws: the fallback returns
  one text token, flagged provisional.
\<close>

theorem addChunk_never_throws_witness:
  "\<not> primaryOk failingLexer (afterAppend (newParser True) malformed)
   \<and> parse failingLexer (afterAppend (newParser True) malformed) =
       Inr (parsePartial (buffer (afterAppend (newParser True) malformed)),
            afterAppend (newParser True) malformed)
   \<and> parsePartial (buffer (afterAppend (newParser True) malformed)) =
       [(token Text malformed)\<lparr>incomplete := Some True\<rparr>]"
proof -
  have nok: "\<not> primaryOk failingLexer (afterAppend (newParser True) malformed)"
    by (simp add: sess_defs failingLexer_def)
  have fb: "parsePartial (buffer (afterAppend (newParser True) malformed)) =
       [(token Text malformed)\<lparr>incomplete := Some True\<rparr>]"
    by (simp add: sess_defs pre_defs tail_defs conv_defs line_defs malformed_def)
  from addChunk_never_throws [of failingLexer "afterAppend (newParser True) malformed" "[]"]
    nok fb
  show ?thesis by simp
qed

section \<open>C2: at most one provisional token\<close>

text \<open>
  C2, as amended. When the \<^verbatim>\<open>try\<close> block of parse completes (the primary path), the
  array that addChunk returns holds at most one provisional token, and a provisional
  token is the last element. On the fallback path each line is flagged on its own, and
  several tokens of one array can be provisional.
\<close>

theorem primary_at_most_one_provisional:
  assumes "addChunk lx st chunk = Inr (result, st')"
    and "primaryOk lx (afterAppend st chunk)"
  shows "length (filter provisional result) \<le> 1 \<and>
         (\<forall>i < length result. provisional (result ! i) \<longrightarrow> Suc i = length result)"
proof -
  from assms have "tryParse lx (afterAppend st chunk) = Inr (result, st')"
    by (simp add: addChunk_def parse_cases)
  then have "\<forall>t \<in> set (butlast result). \<not> provisional t"
    by (blast dest: tryParse_butlast_not_provisional)
  then show ?thesis by (rule at_most_last)
qed

text \<open>
  The second step of the specification's streaming scenario: the heading is closed and not
  flagged, the text after it ends inside a bold run and is flagged, and it is the last token.
\<close>

theorem primary_at_most_one_provisional_witness:
  "addChunk helloLexer (newParser True) helloSource =
     Inr ([(withRaw Heading (js ''Hello'') (js ''# Hello\<newline>\<newline>''))\<lparr>depth := Some 1\<rparr>,
           (withRaw Text (js ''This is **bo'') (js ''This is **bo''))
             \<lparr>incomplete := Some True\<rparr>],
          \<lparr>buffer = helloSource,
             tokens =
               [(withRaw Heading (js ''Hello'') (js ''# Hello\<newline>\<newline>''))
                  \<lparr>depth := Some 1\<rparr>,
                (withRaw Text (js ''This is **bo'') (js ''This is **bo''))
                  \<lparr>incomplete := Some True\<rparr>],
             parseIncomplete = True\<rparr>)
   \<and> primaryOk helloLexer (afterAppend (newParser True) helloSource)
   \<and> map provisional
        [(withRaw Heading (js ''Hello'') (js ''# Hello\<newline>\<newline>''))\<lparr>depth := Some 1\<rparr>,
         (withRaw Text (js ''This is **bo'') (js ''This is **bo''))
           \<lparr>incomplete := Some True\<rparr>] = [False, True]
   \<and> length (filter provisional
        [(withRaw Heading (js ''Hello'') (js ''# Hello\<newline>\<newline>''))\<lparr>depth := Some 1\<rparr>,
         (withRaw Text (js ''This is **bo'') (js ''This is **bo''))
           \<lparr>incomplete := Some True\<rparr>]) \<le> 1"
proof -
  let ?h = "(withRaw Heading (js ''Hello'') (js ''# Hello\<newline>\<newline>''))\<lparr>depth := Some 1\<rparr>"
  let ?t = "(withRaw Text (js ''This is **bo'') (js ''This is **bo''))\<lparr>incomplete := Some True\<rparr>"
  have run: "addChunk helloLexer (newParser True) helloSource =
     Inr ([?h, ?t], \<lparr>buffer = helloSource, tokens = [?h, ?t], parseIncomplete = True\<rparr>)"
    by (simp add: sess_defs pre_defs tail_defs conv_defs helloLexer_def helloSource_def
        headingOf_def paragraphOf_def)
  have ok: "primaryOk helloLexer (afterAppend (newParser True) helloSource)"
    by (simp add: sess_defs pre_defs tail_defs conv_defs helloLexer_def helloSource_def
        headingOf_def paragraphOf_def)
  have flags: "map provisional [?h, ?t] = [False, True]"
    by (simp add: provisional_def withRaw_def token_def)
  from primary_at_most_one_provisional [OF run ok] run ok flags show ?thesis by simp
qed

text \<open>
  C2 as stated fails on the fallback path: with a lexer that throws, a closed fenced block
  of three lines gives three tokens, and the two made from the fence lines are both
  provisional.
\<close>

theorem fallback_two_provisional:
  "addChunk failingLexer (newParser True) (js ''```js\<newline>x\<newline>```'') =
     Inr ([(token Codeblock [])\<lparr>lang := Some (js ''js''), incomplete := Some True\<rparr>,
           (token Text (js ''x''))\<lparr>incomplete := Some False\<rparr>,
           (token Codeblock [])\<lparr>lang := Some (js ''text''), incomplete := Some True\<rparr>],
          \<lparr>buffer = js ''```js\<newline>x\<newline>```'', tokens = [], parseIncomplete = True\<rparr>)
   \<and> map provisional
        [(token Codeblock [])\<lparr>lang := Some (js ''js''), incomplete := Some True\<rparr>,
         (token Text (js ''x''))\<lparr>incomplete := Some False\<rparr>,
         (token Codeblock [])\<lparr>lang := Some (js ''text''), incomplete := Some True\<rparr>]
       = [True, False, True]"
  by (simp add: sess_defs pre_defs tail_defs conv_defs line_defs failingLexer_def provisional_def)

section \<open>C3: diagram detection\<close>

text \<open>
  C3, at the input where the code departs from it. A fenced block whose first line is
  \<^verbatim>\<open>graph TD\<close> becomes a mermaid token when it has no language tag, and also when its tag
  is \<^verbatim>\<open>python\<close>: the keyword test of processTokensWithDiagramDetection does not look at
  the tag, though its comment speaks of unlabeled code blocks.
\<close>

theorem tagged_block_becomes_diagram:
  "addChunk pythonFenceLexer (newParser True) (fence (js ''python'') graphTD) =
     Inr ([withRaw Mermaid graphTD (fence (js ''python'') graphTD)],
          \<lparr>buffer = fence (js ''python'') graphTD,
             tokens = [withRaw Mermaid graphTD (fence (js ''python'') graphTD)],
             parseIncomplete = True\<rparr>)
   \<and> addChunk plainFenceLexer (newParser True) (fence [] graphTD) =
     Inr ([withRaw Mermaid graphTD (fence [] graphTD)],
          \<lparr>buffer = fence [] graphTD,
             tokens = [withRaw Mermaid graphTD (fence [] graphTD)],
             parseIncomplete = True\<rparr>)"
  by (simp add: sess_defs pre_defs tail_defs conv_defs fence_defs trim_def)

section \<open>C4: the last token is flagged\<close>

text \<open>
  C4, as amended. With incompleteness handling on, when the \<^verbatim>\<open>try\<close> block of parse
  completes, the returned array is not empty and the end of the buffer matches one of the
  still-open signatures, the last token of the returned array is provisional exactly when
  its content is not empty.
\<close>

theorem last_token_flagged:
  assumes "addChunk lx st chunk = Inr (result, st')"
    and "primaryOk lx (afterAppend st chunk)"
    and "parseIncomplete st"
    and "result \<noteq> []"
    and "stillOpen (buffer st')"
  shows "provisional (last result) \<longleftrightarrow> content (last result) \<noteq> []"
proof -
  from assms(1,2) have tp: "tryParse lx (afterAppend st chunk) = Inr (result, st')"
    by (simp add: addChunk_def parse_cases)
  then obtain ms conv where
    conv: "convertTokens (processTokensWithDiagramDetection ms) = Inr conv"
    and res: "result = (if parseIncomplete (afterAppend st chunk)
            then handleIncompleteMarkdown (buffer (afterAppend st chunk)) conv else conv)"
    and st': "st' = (afterAppend st chunk)\<lparr>tokens := result\<rparr>"
    by (rule tryParse_Inr)
  from assms(3) have "parseIncomplete (afterAppend st chunk)" by (simp add: afterAppend_def)
  with res have r1: "result = handleIncompleteMarkdown (buffer (afterAppend st chunk)) conv"
    by simp
  from st' have "buffer st' = buffer (afterAppend st chunk)" by simp
  with assms(5) have "stillOpen (buffer (afterAppend st chunk))" by simp
  with r1 have r2: "result = (if conv \<noteq> [] then markLast conv else conv)"
    by (simp add: handleIncompleteMarkdown_eq stillOpen_eq)
  with assms(4) have ne: "conv \<noteq> []" by (auto split: if_splits)
  with r2 have r3: "result = markLast conv" by simp
  with ne have c: "content (last result) = content (last conv)" by (simp add: markLast_content)
  show ?thesis
  proof (cases "content (last conv) = []")
    case True
    with r3 have "result = conv" by (simp add: markLast_def)
    with ne have "last result \<in> set conv" by simp
    with conv have "incomplete (last result) = None" by (simp add: convertTokens_fresh)
    with True c show ?thesis by (simp add: provisional_def)
  next
    case False
    with ne r3 have "last result = (last conv)\<lparr>incomplete := Some True\<rparr>"
      by (simp add: markLast_last)
    with False c show ?thesis by (simp add: provisional_def)
  qed
qed

text \<open>An unterminated link start, read by the lexer as a paragraph.\<close>

theorem last_token_flagged_witness:
  "addChunk textLexer (newParser True) (js ''[lin'') =
     Inr ([(withRaw Text (js ''[lin'') (js ''[lin''))\<lparr>incomplete := Some True\<rparr>],
          \<lparr>buffer = js ''[lin'',
             tokens = [(withRaw Text (js ''[lin'') (js ''[lin''))\<lparr>incomplete := Some True\<rparr>],
             parseIncomplete = True\<rparr>)
   \<and> primaryOk textLexer (afterAppend (newParser True) (js ''[lin''))
   \<and> parseIncomplete (newParser True)
   \<and> stillOpen (js ''[lin'')
   \<and> content ((withRaw Text (js ''[lin'') (js ''[lin''))\<lparr>incomplete := Some True\<rparr>) \<noteq> []
   \<and> provisional ((withRaw Text (js ''[lin'') (js ''[lin''))\<lparr>incomplete := Some True\<rparr>)"
proof -
  have run: "addChunk textLexer (newParser True) (js ''[lin'') =
     Inr ([(withRaw Text (js ''[lin'') (js ''[lin''))\<lparr>incomplete := Some True\<rparr>],
          \<lparr>buffer = js ''[lin'',
             tokens = [(withRaw Text (js ''[lin'') (js ''[lin''))\<lparr>incomplete := Some True\<rparr>],
             parseIncomplete = True\<rparr>)"
    by (simp add: sess_defs pre_defs tail_defs conv_defs textLexer_def paragraphOf_def)
  have ok: "primaryOk textLexer (afterAppend (newParser True) (js ''[lin''))"
    by (simp add: sess_defs pre_defs tail_defs conv_defs textLexer_def paragraphOf_def)
  have flag: "parseIncomplete (newParser True)" by (simp add: newParser_def)
  have op: "stillOpen (js ''[lin'')" by (simp add: stillOpen_def tail_defs)
  have c: "content ((withRaw Text (js ''[lin'') (js ''[lin''))\<lparr>incomplete := Some True\<rparr>) \<noteq> []"
    by (simp add: withRaw_def token_def)
  from last_token_flagged [OF run ok flag] op c run ok flag show ?thesis by simp
qed

text \<open>
  C4 as stated fails when the content of the last token is empty: a thematic break
  \<^verbatim>\<open>* * * \<close> ends in a star followed by a space, so the emphasis signature matches, and
  its token is not flagged.
\<close>

theorem thematic_break_not_flagged:
  "addChunk hrLexer (newParser True) (js ''* * * '') =
     Inr ([withRaw Hr [] (js ''* * * '')],
          \<lparr>buffer = js ''* * * '', tokens = [withRaw Hr [] (js ''* * * '')],
             parseIncomplete = True\<rparr>)
   \<and> primaryOk hrLexer (afterAppend (newParser True) (js ''* * * ''))
   \<and> openEm (js ''* * * '')
   \<and> \<not> provisional (withRaw Hr [] (js ''* * * ''))"
  by (simp add: sess_defs pre_defs tail_defs conv_defs hrLexer_def provisional_def)

section \<open>C5: the table round trip\<close>

text \<open>
  C5, as amended. When the lexer reads the buffer as one table whose header is not empty,
  which has at least one data row, whose rows have as many cells as the header, and whose
  cell texts are not empty and hold neither \<^verbatim>\<open>|\<close> nor a newline, addChunk returns a single
  token of type table whose content is the canonical pipe table, and parseMarkdownTable
  reads that content back with as many headers as the header has cells and as many rows
  as the table has data rows.
\<close>

theorem table_round_trip:
  assumes lex: "lx (buffer (afterAppend st chunk)) = Inr [tbl]"
    and ty: "m_type tbl = M_table"
    and hd: "m_header tbl = Some header" and rw: "m_rows tbl = Some rws"
    and ne: "header \<noteq> []" "rws \<noteq> []"
    and len: "\<forall>row \<in> set rws. length row = length header"
    and cells: "\<forall>c \<in> set header \<union> \<Union> (set ` set rws).
                  c_text c \<noteq> [] \<and> 124 \<notin> set (c_text c) \<and> 10 \<notin> set (c_text c)"
  shows "\<exists>t st' td. addChunk lx st chunk = Inr ([t], st') \<and> ptype t = Table
           \<and> content t = canonicalTable (map c_text header) (map (map c_text) rws)
           \<and> parseMarkdownTable (content t) = Some td
           \<and> length (headers td) = length header \<and> length (rows td) = length rws"
proof -
  let ?H = "map c_text header" and ?R = "map (map c_text) rws"
  let ?t = "withRaw Table (convertTableTokenToMarkdown tbl) (m_raw tbl)"
  from cells have "\<forall>c \<in> set header \<union> \<Union> (set ` set rws). c_text c \<noteq> []" by blast
  then have conv: "convertTableTokenToMarkdown tbl = canonicalTable ?H ?R"
    by (rule convert_canonical [OF hd rw])
  obtain t' where t': "handleIncompleteMarkdown (buffer (afterAppend st chunk)) [?t] = [t']"
    "ptype t' = ptype ?t" "content t' = content ?t"
    using handle_single by blast
  let ?res = "if parseIncomplete (afterAppend st chunk) then t' else ?t"
  from lex ty t' have "tryParse lx (afterAppend st chunk)
      = Inr ([?res], (afterAppend st chunk)\<lparr>tokens := [?res]\<rparr>)"
    by (simp add: tryParse_def table_token_converted Let_def)
  then have run: "addChunk lx st chunk = Inr ([?res], (afterAppend st chunk)\<lparr>tokens := [?res]\<rparr>)"
    by (simp add: addChunk_def parse_def)
  from t' conv have pt: "ptype ?res = Table" and ct: "content ?res = canonicalTable ?H ?R"
    by (simp_all add: withRaw_def token_def)
  have "\<exists>td. parseMarkdownTable (canonicalTable ?H ?R) = Some td
           \<and> length (headers td) = length ?H \<and> length (rows td) = length ?R"
  proof (rule parse_canonical)
    show "?H \<noteq> []" "?R \<noteq> []" using ne by simp_all
    show "\<forall>r \<in> set ?R. length r = length ?H" using len by simp
    show "\<forall>c \<in> set ?H \<union> \<Union> (set ` set ?R). 10 \<notin> set c" using cells by auto
    show "\<forall>c \<in> set ?H \<union> \<Union> (set ` set ?R). 124 \<notin> set c" using cells by auto
  qed
  then obtain td where "parseMarkdownTable (canonicalTable ?H ?R) = Some td"
    "length (headers td) = length header" "length (rows td) = length rws" by auto
  with run pt ct show ?thesis by metis
qed

text \<open>The table of the specification's scenario, and its canonical content.\<close>

theorem table_round_trip_witness:
  "abLexer (buffer (afterAppend (newParser True) abSource)) = Inr [abTable]
   \<and> m_type abTable = M_table
   \<and> m_header abTable = Some [cellOf (js ''a''), cellOf (js ''b'')]
   \<and> m_rows abTable = Some [[cellOf (js ''1''), cellOf (js ''2'')]]
   \<and> canonicalTable (map c_text [cellOf (js ''a''), cellOf (js ''b'')])
        (map (map c_text) [[cellOf (js ''1''), cellOf (js ''2'')]])
       = js ''| a | b |\<newline>| --- | --- |\<newline>| 1 | 2 |''
   \<and> (\<exists>t st' td. addChunk abLexer (newParser True) abSource = Inr ([t], st')
         \<and> ptype t = Table
         \<and> content t = js ''| a | b |\<newline>| --- | --- |\<newline>| 1 | 2 |''
         \<and> parseMarkdownTable (content t) = Some td
         \<and> length (headers td) = 2 \<and> length (rows td) = 1)"
proof -
  let ?header = "[cellOf (js ''a''), cellOf (js ''b'')]"
  let ?rows = "[[cellOf (js ''1''), cellOf (js ''2'')]]"
  have lex: "abLexer (buffer (afterAppend (newParser True) abSource)) = Inr [abTable]"
    by (simp add: abLexer_def)
  have ty: "m_type abTable = M_table" by (simp add: abTable_def tableToken_def)
  have hd: "m_header abTable = Some ?header" by (simp add: abTable_def tableToken_def)
  have rw: "m_rows abTable = Some ?rows" by (simp add: abTable_def tableToken_def)
  have ne: "?header \<noteq> []" "?rows \<noteq> []" by simp_all
  have len: "\<forall>row \<in> set ?rows. length row = length ?header" by simp
  have cells: "\<forall>c \<in> set ?header \<union> \<Union> (set ` set ?rows).
      c_text c \<noteq> [] \<and> 124 \<notin> set (c_text c) \<and> 10 \<notin> set (c_text c)"
    by (simp add: cellOf_def)
  have canon: "canonicalTable (map c_text ?header) (map (map c_text) ?rows)
       = js ''| a | b |\<newline>| --- | --- |\<newline>| 1 | 2 |''"
    by (simp add: canonicalTable_def pipeLine_def cellOf_def)
  from table_round_trip [where lx = abLexer and st = "newParser True" and chunk = abSource,
      OF lex ty hd rw ne len cells]
  have "\<exists>t st' td. addChunk abLexer (newParser True) abSource = Inr ([t], st')
         \<and> ptype t = Table
         \<and> content t = js ''| a | b |\<newline>| --- | --- |\<newline>| 1 | 2 |''
         \<and> parseMarkdownTable (content t) = Some td
         \<and> length (headers td) = 2 \<and> length (rows td) = 1"
    by (simp only: canon) (simp add: numeral_2_eq_2)
  with lex ty hd rw canon show ?thesis by blast
qed

text \<open>
  C5 as stated fails for a table with no data row: its canonical content has two lines,
  and parseMarkdownTable asks for three and returns \<^verbatim>\<open>null\<close>.
\<close>

theorem header_only_table_not_read_back:
  "addChunk headOnlyLexer (newParser True) headOnlySource =
     Inr ([withRaw Table (js ''| a | b |\<newline>| --- | --- |'') headOnlySource],
          \<lparr>buffer = headOnlySource,
             tokens = [withRaw Table (js ''| a | b |\<newline>| --- | --- |'') headOnlySource],
             parseIncomplete = True\<rparr>)
   \<and> parseMarkdownTable (js ''| a | b |\<newline>| --- | --- |'') = None"
proof -
  have "addChunk headOnlyLexer (newParser True) headOnlySource =
     Inr ([withRaw Table (js ''| a | b |\<newline>| --- | --- |'') headOnlySource],
          \<lparr>buffer = headOnlySource,
             tokens = [withRaw Table (js ''| a | b |\<newline>| --- | --- |'') headOnlySource],
             parseIncomplete = True\<rparr>)"
    by (simp add: sess_defs pre_defs tail_defs conv_defs headOnlyLexer_def headOnlySource_def
        tableToken_def cellOf_def convertTableTokenToMarkdown_def pipeLine_def cellString_def)
  moreover have "parseMarkdownTable (js ''| a | b |\<newline>| --- | --- |'') = None"
    by (simp add: table_defs trim_def isSpace_def)
  ultimately show ?thesis by simp
qed

section \<open>C6: headings of the line parser\<close>

text \<open>
  C6, as amended. parsePartial classifies the non-blank lines of the buffer in order. A
  line gives a heading token exactly when it starts with one to six \<^verbatim>\<open>#\<close> followed by a
  white-space character; the depth of the token is the number of hashes and its content
  is the line after the hashes and that character. When the last line of the buffer (the
  line with no newline after it) is a heading, its token is the last of the array and it
  is provisional: the flag of a heading is not always false.
\<close>

theorem fallback_heading_depth:
  "parsePartial buf =
     map parseIncompleteLine (filter (\<lambda>l. trim l \<noteq> []) (splitOn 10 buf))
   \<and> (ptype (parseIncompleteLine line) = Heading \<longleftrightarrow>
        1 \<le> hashes line \<and> hashes line \<le> 6 \<and> hashes line < length line
        \<and> isSpace (line ! hashes line))
   \<and> (ptype (parseIncompleteLine line) = Heading \<longrightarrow>
        depth (parseIncompleteLine line) = Some (hashes line)
        \<and> content (parseIncompleteLine line) = drop (Suc (hashes line)) line)
   \<and> (ptype (parseIncompleteLine (last (splitOn 10 buf))) = Heading \<longrightarrow>
        parsePartial buf \<noteq> []
        \<and> last (parsePartial buf) = parseIncompleteLine (last (splitOn 10 buf))
        \<and> provisional (last (parsePartial buf)))"
proof (intro conjI impI)
  show eq: "parsePartial buf =
     map parseIncompleteLine (filter (\<lambda>l. trim l \<noteq> []) (splitOn 10 buf))"
    by (simp add: parsePartial_def parseLines_eq)
  show "ptype (parseIncompleteLine line) = Heading \<longleftrightarrow>
        1 \<le> hashes line \<and> hashes line \<le> 6 \<and> hashes line < length line
        \<and> isSpace (line ! hashes line)"
    by (auto simp: heading_line headingPrefix_Some)
  {
    assume "ptype (parseIncompleteLine line) = Heading"
    then obtain k where k: "headingPrefix line = Some k" by (auto simp: heading_line)
    then have kk: "k = Suc (hashes line)" "1 \<le> hashes line" "hashes line \<le> 6"
      by (simp_all add: headingPrefix_Some)
    with k show "depth (parseIncompleteLine line) = Some (hashes line)"
      by (simp add: parseIncompleteLine_def token_def)
    from k kk show "content (parseIncompleteLine line) = drop (Suc (hashes line)) line"
      by (simp add: parseIncompleteLine_def token_def)
  }
  {
    let ?l = "last (splitOn 10 buf)"
    let ?ls = "filter (\<lambda>l. trim l \<noteq> []) (splitOn 10 buf)"
    assume "ptype (parseIncompleteLine ?l) = Heading"
    then obtain k where k: "headingPrefix ?l = Some k" by (auto simp: heading_line)
    then have nb: "trim ?l \<noteq> []" by (rule heading_not_blank)
    have mem: "?l \<in> set (splitOn 10 buf)" by (simp add: splitOn_not_Nil)
    with nb have ne: "?ls \<noteq> []" by (auto simp: filter_empty_conv)
    with eq show "parsePartial buf \<noteq> []" by simp
    from nb have "last ?ls = ?l" by (rule last_filter_keep [OF splitOn_not_Nil])
    with ne eq show lastp: "last (parsePartial buf) = parseIncompleteLine ?l"
      by (simp add: last_map)
    from mem have "10 \<notin> set ?l" by (rule splitOn_no_sep)
    with k have "incomplete (parseIncompleteLine ?l) = Some True"
      by (simp add: parseIncompleteLine_def token_def)
    with lastp show "provisional (last (parsePartial buf))"
      by (simp add: provisional_def)
  }
qed

text \<open>A buffer that ends in an unterminated heading of depth 2.\<close>

theorem fallback_heading_depth_witness:
  "ptype (parseIncompleteLine (js ''## Ti'')) = Heading
   \<and> depth (parseIncompleteLine (js ''## Ti'')) = Some 2
   \<and> hashes (js ''## Ti'') = 2
   \<and> content (parseIncompleteLine (js ''## Ti'')) = js ''Ti''
   \<and> last (splitOn 10 (js ''intro\<newline>## Ti'')) = js ''## Ti''
   \<and> provisional (last (parsePartial (js ''intro\<newline>## Ti'')))"
proof -
  have h: "ptype (parseIncompleteLine (js ''## Ti'')) = Heading"
    by (simp add: line_defs tail_defs token_def)
  have n: "hashes (js ''## Ti'') = 2" by (simp add: hashes_def)
  have l: "last (splitOn 10 (js ''intro\<newline>## Ti'')) = js ''## Ti''" by simp
  note inst = fallback_heading_depth [of "js ''intro\<newline>## Ti''" "js ''## Ti''"]
  from inst h have d: "depth (parseIncompleteLine (js ''## Ti'')) = Some (hashes (js ''## Ti''))"
    and c: "content (parseIncompleteLine (js ''## Ti'')) = drop (Suc (hashes (js ''## Ti''))) (js ''## Ti'')"
    by blast+
  from h have "ptype (parseIncompleteLine (last (splitOn 10 (js ''intro\<newline>## Ti'')))) = Heading"
    by (simp only: l)
  with inst have p: "provisional (last (parsePartial (js ''intro\<newline>## Ti'')))" by blast
  from c have c': "content (parseIncompleteLine (js ''## Ti'')) = js ''Ti''"
    by (simp only: n) simp
  from d have d': "depth (parseIncompleteLine (js ''## Ti'')) = Some 2" by (simp only: n)
  from h d' n c' l p show ?thesis by blast
qed

text \<open>
  C6 as stated fails: a buffer that is one unterminated heading line gives a heading token
  whose flag is true.
\<close>

theorem unterminated_heading_provisional:
  "parsePartial (js ''# a'') =
     [(token Heading (js ''a''))\<lparr>depth := Some 1, incomplete := Some True\<rparr>]
   \<and> ptype ((token Heading (js ''a''))\<lparr>depth := Some 1, incomplete := Some True\<rparr>) = Heading
   \<and> provisional ((token Heading (js ''a''))\<lparr>depth := Some 1, incomplete := Some True\<rparr>)"
  by (simp add: line_defs tail_defs token_def provisional_def)

section \<open>C7: rows of a pipe table read back\<close>

text \<open>
  C7. When parseMarkdownTable reads a string into headers and rows, the rows are, in order,
  the data lines whose cells (the line split at \<^verbatim>\<open>|\<close>, each piece trimmed, an empty first
  and an empty last piece removed) are as many as the headers, each with its cells cleaned
  of inline marks. A data line is among the rows exactly when its number of cells is the
  number of headers; any other line is left out, and the function raises nothing.
\<close>

theorem rows_kept_iff_count:
  assumes "parseMarkdownTable md = Some td"
  shows "rows td =
           map (map cleanCell)
             (filter (\<lambda>cells. length cells = length (headers td))
                (map splitCells (drop 2 (tableLines md))))
       \<and> (\<forall>line \<in> set (drop 2 (tableLines md)).
            map cleanCell (splitCells line) \<in> set (rows td)
              \<longleftrightarrow> length (splitCells line) = length (headers td))"
proof -
  let ?n = "length (headers td)"
  let ?ls = "drop 2 (tableLines md)"
  from assms have r: "rows td = map (map cleanCell)
      (filter (\<lambda>cells. length cells = ?n) (map splitCells ?ls))"
    by (simp add: parseMarkdownTable_Some(3) dataRows_eq)
  have "\<forall>line \<in> set ?ls. map cleanCell (splitCells line) \<in> set (rows td)
              \<longleftrightarrow> length (splitCells line) = ?n"
  proof
    fix line assume mem: "line \<in> set ?ls"
    show "map cleanCell (splitCells line) \<in> set (rows td)
              \<longleftrightarrow> length (splitCells line) = ?n"
    proof
      assume "map cleanCell (splitCells line) \<in> set (rows td)"
      with r obtain cells where "length cells = ?n"
        "map cleanCell cells = map cleanCell (splitCells line)" by auto
      then show "length (splitCells line) = ?n" by (metis length_map)
    next
      assume "length (splitCells line) = ?n"
      with mem r show "map cleanCell (splitCells line) \<in> set (rows td)" by auto
    qed
  qed
  with r show ?thesis by simp
qed

text \<open>The line \<^verbatim>\<open>| 3 |\<close> has one cell under two headers and is left out.\<close>

theorem rows_kept_iff_count_witness:
  "parseMarkdownTable sampleTable =
     Some \<lparr>headers = [js ''a'', js ''b''], rows = [[js ''1'', js ''2'']]\<rparr>
   \<and> js ''| 3 |'' \<in> set (drop 2 (tableLines sampleTable))
   \<and> length (splitCells (js ''| 3 |'')) = 1
   \<and> map cleanCell (splitCells (js ''| 3 |'')) \<notin> set [[js ''1'', js ''2'']]
   \<and> js ''| 1 | 2 |'' \<in> set (drop 2 (tableLines sampleTable))
   \<and> map cleanCell (splitCells (js ''| 1 | 2 |'')) \<in> set [[js ''1'', js ''2'']]"
proof -
  have p: "parseMarkdownTable sampleTable =
     Some \<lparr>headers = [js ''a'', js ''b''], rows = [[js ''1'', js ''2'']]\<rparr>"
    by (simp add: sampleTable_def table_defs trim_def isSpace_def isLineTerminator_def)
  have l: "drop 2 (tableLines sampleTable) = [js ''| 1 | 2 |'', js ''| 3 |'']"
    by (simp add: sampleTable_def table_defs trim_def isSpace_def isLineTerminator_def)
  have c: "length (splitCells (js ''| 3 |'')) = 1"
    by (simp add: table_defs trim_def isSpace_def)
  have m3: "js ''| 3 |'' \<in> set (drop 2 (tableLines sampleTable))"
    and m12: "js ''| 1 | 2 |'' \<in> set (drop 2 (tableLines sampleTable))"
    by (simp_all only: l) simp_all
  note inst = rows_kept_iff_count [OF p]
  from inst m3 have "map cleanCell (splitCells (js ''| 3 |''))
        \<in> set (rows \<lparr>headers = [js ''a'', js ''b''], rows = [[js ''1'', js ''2'']]\<rparr>)
      \<longleftrightarrow> length (splitCells (js ''| 3 |''))
          = length (headers \<lparr>headers = [js ''a'', js ''b''], rows = [[js ''1'', js ''2'']]\<rparr>)"
    by blast
  with c have out: "map cleanCell (splitCells (js ''| 3 |'')) \<notin> set [[js ''1'', js ''2'']]"
    by simp
  have inn: "map cleanCell (splitCells (js ''| 1 | 2 |'')) \<in> set [[js ''1'', js ''2'']]"
    by (simp add: table_defs trim_def isSpace_def isLineTerminator_def)
  from p m3 c out m12 inn show ?thesis by blast
qed

section \<open>C8: numeric character references\<close>




section \<open>C9: getTokens after addChunk\<close>

text \<open>
  C9. After an addChunk call on the primary path, getTokens returns the array that the call
  returned. On the fallback path the stored tokens are those from before the call, and the
  call returned what parsePartial makes of the buffer; the two can differ.
\<close>

theorem getTokens_after_addChunk:
  assumes "addChunk lx st chunk = Inr (result, st')"
  shows "(primaryOk lx (afterAppend st chunk) \<longrightarrow> getTokens st' = result)
       \<and> (\<not> primaryOk lx (afterAppend st chunk) \<longrightarrow>
            getTokens st' = getTokens st \<and> result = parsePartial (buffer st'))"
proof (cases "primaryOk lx (afterAppend st chunk)")
  case True
  with assms have "tryParse lx (afterAppend st chunk) = Inr (result, st')"
    by (simp add: addChunk_def parse_cases)
  then have "st' = (afterAppend st chunk)\<lparr>tokens := result\<rparr>"
    by (rule tryParse_Inr)
  then have "getTokens st' = result" by (simp add: getTokens_def)
  with True show ?thesis by simp
next
  case False
  with assms have "result = parsePartial (buffer (afterAppend st chunk))"
    and "st' = afterAppend st chunk"
    by (auto simp: addChunk_def parse_cases)
  with False show ?thesis by (simp add: getTokens_def afterAppend_def)
qed

text \<open>
  One call on each path, on a fresh session: on the primary path getTokens gives the
  returned array; on the fallback path it gives the empty array of the fresh session,
  which is not the array returned.
\<close>

theorem getTokens_after_addChunk_witness:
  "addChunk textLexer (newParser True) (js ''x'') =
     Inr ([withRaw Text (js ''x'') (js ''x'')],
          \<lparr>buffer = js ''x'', tokens = [withRaw Text (js ''x'') (js ''x'')],
             parseIncomplete = True\<rparr>)
   \<and> primaryOk textLexer (afterAppend (newParser True) (js ''x''))
   \<and> getTokens \<lparr>buffer = js ''x'', tokens = [withRaw Text (js ''x'') (js ''x'')],
             parseIncomplete = True\<rparr> = [withRaw Text (js ''x'') (js ''x'')]
   \<and> addChunk failingLexer (newParser True) (js ''x'') =
     Inr ([(token Text (js ''x''))\<lparr>incomplete := Some False\<rparr>],
          \<lparr>buffer = js ''x'', tokens = [], parseIncomplete = True\<rparr>)
   \<and> \<not> primaryOk failingLexer (afterAppend (newParser True) (js ''x''))
   \<and> getTokens \<lparr>buffer = js ''x'', tokens = [], parseIncomplete = True\<rparr>
       = getTokens (newParser True)
   \<and> getTokens \<lparr>buffer = js ''x'', tokens = [], parseIncomplete = True\<rparr>
       \<noteq> [(token Text (js ''x''))\<lparr>incomplete := Some False\<rparr>]"
proof -
  have run1: "addChunk textLexer (newParser True) (js ''x'') =
     Inr ([withRaw Text (js ''x'') (js ''x'')],
          \<lparr>buffer = js ''x'', tokens = [withRaw Text (js ''x'') (js ''x'')],
             parseIncomplete = True\<rparr>)"
    by (simp add: sess_defs pre_defs tail_defs conv_defs textLexer_def paragraphOf_def)
  have ok1: "primaryOk textLexer (afterAppend (newParser True) (js ''x''))"
    by (simp add: sess_defs pre_defs tail_defs conv_defs textLexer_def paragraphOf_def)
  have run2: "addChunk failingLexer (newParser True) (js ''x'') =
     Inr ([(token Text (js ''x''))\<lparr>incomplete := Some False\<rparr>],
          \<lparr>buffer = js ''x'', tokens = [], parseIncomplete = True\<rparr>)"
    by (simp add: sess_defs pre_defs tail_defs conv_defs line_defs failingLexer_def)
  have ok2: "\<not> primaryOk failingLexer (afterAppend (newParser True) (js ''x''))"
    by (simp add: sess_defs failingLexer_def)
  have differ: "getTokens \<lparr>buffer = js ''x'', tokens = [], parseIncomplete = True\<rparr>
       \<noteq> [(token Text (js ''x''))\<lparr>incomplete := Some False\<rparr>]"
    by (simp add: getTokens_def)
  from getTokens_after_addChunk [OF run1] getTokens_after_addChunk [OF run2]
    run1 ok1 run2 ok2 differ
  show ?thesis by blast
qed

section \<open>C10: no blockquote token on the primary path\<close>

text \<open>
  C10. When the \<^verbatim>\<open>try\<close> block of parse completes, no token of the array that addChunk
  returns has the type blockquote. A blockquote \<open>b\<close> among the tokens of the lexer has an
  array of children, and the returned array holds, at the place of \<open>b\<close>, the conversion of
  its flattened children: what convertTokens makes of processInlineTokens of the children
  (a quoted paragraph gives its inline tokens; a blockquote among the children is replaced
  in the same way). Before it stand the conversions of the tokens before \<open>b\<close>, after it
  those of the tokens after \<open>b\<close>; with incompleteness handling on, the detector then
  flags at most the last token. The line parser gives a blockquote token exactly for a
  line that starts with \<^verbatim>\<open>>\<close>.
\<close>

theorem no_blockquote_on_primary_path:
  "(addChunk lx st chunk = Inr (result, st') \<and> primaryOk lx (afterAppend st chunk)
      \<longrightarrow> (\<forall>t \<in> set result. ptype t \<noteq> Blockquote))
   \<and> (addChunk lx st chunk = Inr (result, st') \<and> primaryOk lx (afterAppend st chunk)
      \<and> lx (buffer (afterAppend st chunk)) = Inr (ts1 @ [b] @ ts2) \<and> m_type b = M_blockquote
      \<longrightarrow> (\<exists>children r1 rc r2.
             m_tokens b = Some children
           \<and> convertTokens (processTokensWithDiagramDetection ts1) = Inr r1
           \<and> convertTokens (processInlineTokens children) = Inr rc
           \<and> convertTokens (processTokensWithDiagramDetection ts2) = Inr r2
           \<and> result = (if parseIncomplete st
                        then handleIncompleteMarkdown (buffer (afterAppend st chunk))
                               (r1 @ rc @ r2)
                        else r1 @ rc @ r2)))
   \<and> (ptype (parseIncompleteLine line) = Blockquote \<longleftrightarrow> prefix (js ''>'') line)"
proof (intro conjI impI)
  assume a: "addChunk lx st chunk = Inr (result, st') \<and> primaryOk lx (afterAppend st chunk)"
  then have "tryParse lx (afterAppend st chunk) = Inr (result, st')"
    by (auto simp: addChunk_def parse_cases)
  then show "\<forall>t \<in> set result. ptype t \<noteq> Blockquote"
    by (blast dest: tryParse_no_blockquote)
next
  assume a: "addChunk lx st chunk = Inr (result, st') \<and> primaryOk lx (afterAppend st chunk)
      \<and> lx (buffer (afterAppend st chunk)) = Inr (ts1 @ [b] @ ts2) \<and> m_type b = M_blockquote"
  then have run: "tryParse lx (afterAppend st chunk) = Inr (result, st')"
    by (auto simp: addChunk_def parse_cases)
  from a have lex: "lx (buffer (afterAppend st chunk)) = Inr (ts1 @ [b] @ ts2)"
    and bq: "m_type b = M_blockquote" by simp_all
  have flag: "parseIncomplete (afterAppend st chunk) = parseIncomplete st"
    by (simp add: afterAppend_def)
  from blockquote_in_place [OF run lex bq] flag
  show "\<exists>children r1 rc r2.
             m_tokens b = Some children
           \<and> convertTokens (processTokensWithDiagramDetection ts1) = Inr r1
           \<and> convertTokens (processInlineTokens children) = Inr rc
           \<and> convertTokens (processTokensWithDiagramDetection ts2) = Inr r2
           \<and> result = (if parseIncomplete st
                        then handleIncompleteMarkdown (buffer (afterAppend st chunk))
                               (r1 @ rc @ r2)
                        else r1 @ rc @ r2)"
    by simp
next
  show "ptype (parseIncompleteLine line) = Blockquote \<longleftrightarrow> prefix (js ''>'') line"
    by (rule blockquote_line)
qed

text \<open>
  A heading and a quoted paragraph: on the primary path the heading token and the text
  token of the quoted paragraph are returned; the line parser makes a blockquote token of
  the quoted line.
\<close>

theorem no_blockquote_on_primary_path_witness:
  "addChunk titleQuoteLexer (newParser True) titleQuoteSource =
     Inr ([(withRaw Heading (js ''T'') (js ''# T\<newline>''))\<lparr>depth := Some 1\<rparr>,
           withRaw Text (js ''q'') (js ''q'')],
          \<lparr>buffer = titleQuoteSource,
             tokens = [(withRaw Heading (js ''T'') (js ''# T\<newline>''))\<lparr>depth := Some 1\<rparr>,
                       withRaw Text (js ''q'') (js ''q'')],
             parseIncomplete = True\<rparr>)
   \<and> primaryOk titleQuoteLexer (afterAppend (newParser True) titleQuoteSource)
   \<and> titleQuoteLexer (buffer (afterAppend (newParser True) titleQuoteSource)) =
       Inr ([headingOf 1 (js ''T'') (js ''# T\<newline>'')] @ [quoteOf (js ''q'')] @ [])
   \<and> m_type (quoteOf (js ''q'')) = M_blockquote
   \<and> m_tokens (quoteOf (js ''q'')) = Some [paragraphOf (js ''q'')]
   \<and> convertTokens (processTokensWithDiagramDetection [headingOf 1 (js ''T'') (js ''# T\<newline>'')])
       = Inr [(withRaw Heading (js ''T'') (js ''# T\<newline>''))\<lparr>depth := Some 1\<rparr>]
   \<and> convertTokens (processInlineTokens [paragraphOf (js ''q'')])
       = Inr [withRaw Text (js ''q'') (js ''q'')]
   \<and> convertTokens (processTokensWithDiagramDetection []) = Inr []
   \<and> ptype ((withRaw Heading (js ''T'') (js ''# T\<newline>''))\<lparr>depth := Some 1\<rparr>) \<noteq> Blockquote
   \<and> ptype (withRaw Text (js ''q'') (js ''q'')) \<noteq> Blockquote
   \<and> prefix (js ''>'') (js ''> q'')
   \<and> ptype (parseIncompleteLine (js ''> q'')) = Blockquote"
proof -
  let ?h = "(withRaw Heading (js ''T'') (js ''# T\<newline>''))\<lparr>depth := Some 1\<rparr>"
  let ?t = "withRaw Text (js ''q'') (js ''q'')"
  have run: "addChunk titleQuoteLexer (newParser True) titleQuoteSource =
     Inr ([?h, ?t], \<lparr>buffer = titleQuoteSource, tokens = [?h, ?t], parseIncomplete = True\<rparr>)"
    by (simp add: sess_defs pre_defs tail_defs conv_defs titleQuoteLexer_def
        titleQuoteSource_def headingOf_def quoteOf_def paragraphOf_def)
  have ok: "primaryOk titleQuoteLexer (afterAppend (newParser True) titleQuoteSource)"
    by (simp add: sess_defs pre_defs tail_defs conv_defs titleQuoteLexer_def
        titleQuoteSource_def headingOf_def quoteOf_def paragraphOf_def)
  have lex: "titleQuoteLexer (buffer (afterAppend (newParser True) titleQuoteSource)) =
       Inr ([headingOf 1 (js ''T'') (js ''# T\<newline>'')] @ [quoteOf (js ''q'')] @ [])"
    by (simp add: titleQuoteLexer_def)
  have bq: "m_type (quoteOf (js ''q'')) = M_blockquote"
    "m_tokens (quoteOf (js ''q'')) = Some [paragraphOf (js ''q'')]"
    by (simp_all add: quoteOf_def)
  have parts: "convertTokens (processTokensWithDiagramDetection
        [headingOf 1 (js ''T'') (js ''# T\<newline>'')]) = Inr [?h]"
    "convertTokens (processInlineTokens [paragraphOf (js ''q'')]) = Inr [?t]"
    "convertTokens (processTokensWithDiagramDetection []) = Inr []"
    by (simp_all add: conv_defs headingOf_def paragraphOf_def)
  have types: "ptype ?h \<noteq> Blockquote" "ptype ?t \<noteq> Blockquote"
    by (simp_all add: withRaw_def token_def)
  have pre: "prefix (js ''>'') (js ''> q'')" by simp
  from no_blockquote_on_primary_path [of titleQuoteLexer "newParser True" titleQuoteSource
      "[?h, ?t]" "\<lparr>buffer = titleQuoteSource, tokens = [?h, ?t], parseIncomplete = True\<rparr>"
      "[headingOf 1 (js ''T'') (js ''# T\<newline>'')]" "quoteOf (js ''q'')" "[]" "js ''> q''"]
    run ok lex bq parts types pre
  show ?thesis by simp
qed

end
